theory Spec2Isabelle
  imports Main "HOL-Library.Word"
begin

unbundle bit_operations_syntax

section \<open>Data model\<close>

text \<open>
  The module \<^verbatim>\<open>backend/src/utils/crypto.ts\<close> is glue between three collaborators:
  \<^verbatim>\<open>tweetnacl\<close> (\<^verbatim>\<open>nacl\<close>), \<^verbatim>\<open>tweetnacl-util\<close> (\<^verbatim>\<open>util\<close>) and the repository's own
  \<^verbatim>\<open>./aes-gcm\<close> (\<^verbatim>\<open>AesGCM\<close>). A \<^verbatim>\<open>Uint8Array\<close> is a list of bytes. A JavaScript string that
  carries text (the plaintext) is the list of its UTF-16 code units; a string that
  carries base64 or hexadecimal is a \<^typ>\<open>string\<close>, whose characters are the code units
  below 256 (a code unit above 255 is no base64 or hex digit, and the decoders reject it
  like any other foreign character).
\<close>

type_synonym byte = "8 word"
type_synonym bytes = "byte list"
type_synonym jsstring = "16 word list"

text \<open>
  What a call can throw. The first three are the JavaScript exceptions that the code and
  its two libraries raise, with their messages. The last four are the error taxonomy of
  the specification; nothing in \<^verbatim>\<open>crypto.ts\<close>, \<^verbatim>\<open>tweetnacl\<close> or \<^verbatim>\<open>tweetnacl-util\<close> constructs
  them, only the symmetric primitive as the specification describes it does.
\<close>

datatype error =
    TypeError string
  | URIError string
  | Error string
  | EncodingError
  | KeyFormatError
  | AuthenticationError
  | EntropyError

text \<open>
  The shared random source: a tape of bytes and a read position. \<^verbatim>\<open>nacl.randomBytes(n)\<close>
  returns the next \<open>n\<close> bytes and moves the position past them, so no byte is handed out
  twice.
\<close>

record rng =
  tape :: "nat \<Rightarrow> byte"
  pos :: nat

definition randomBytes :: "nat \<Rightarrow> rng \<Rightarrow> bytes \<times> rng" where
  "randomBytes n r = (map (tape r) [pos r ..< pos r + n], r\<lparr>pos := pos r + n\<rparr>)"

record key_pair =
  publicKey :: string
  privateKey :: string

text \<open>
  Both result objects have a \<^verbatim>\<open>ciphertext\<close> field; the asymmetric one adds \<^verbatim>\<open>nonce\<close>, the
  symmetric one \<^verbatim>\<open>iv\<close> and \<^verbatim>\<open>tag\<close>.
\<close>

record sealed =
  ciphertext :: string

record asymmetric_ciphertext = sealed +
  nonce :: string

record symmetric_ciphertext = sealed +
  iv :: string
  tag :: string

section \<open>tweetnacl-util: base64 and UTF-8\<close>

definition byte_of_nat :: "nat \<Rightarrow> byte" where
  "byte_of_nat n = of_nat n"

definition unit_of_nat :: "nat \<Rightarrow> 16 word" where
  "unit_of_nat n = of_nat n"

fun index_of :: "'a \<Rightarrow> 'a list \<Rightarrow> nat option" where
  "index_of x [] = None"
| "index_of x (y # ys) = (if x = y then Some 0 else map_option Suc (index_of x ys))"

definition b64_alphabet :: string where
  "b64_alphabet = ''ABCDEFGHIJKLMNOPQRSTUVWXYZabcdefghijklmnopqrstuvwxyz0123456789+/''"

definition b64_char :: "nat \<Rightarrow> char" where
  "b64_char i = b64_alphabet ! (i mod 64)"

definition is_b64 :: "char \<Rightarrow> bool" where
  "is_b64 c = (index_of c b64_alphabet \<noteq> None)"

definition b64_value :: "char \<Rightarrow> nat" where
  "b64_value c = (case index_of c b64_alphabet of Some i \<Rightarrow> i | None \<Rightarrow> 0)"

text \<open>
  \<^verbatim>\<open>validateBase64\<close> of tweetnacl-util tests the string against
  \<^verbatim>\<open>/^(?:[A-Za-z0-9+\/]{2}[A-Za-z0-9+\/]{2})*(?:[A-Za-z0-9+\/]{2}==|[A-Za-z0-9+\/]{3}=)?$/\<close>:
  groups of four digits, then at most one padded group.
\<close>

fun validateBase64 :: "string \<Rightarrow> bool" where
  "validateBase64 [] = True"
| "validateBase64 [a, b, c, d] =
     (is_b64 a \<and> is_b64 b \<and>
      ((c = CHR ''='' \<and> d = CHR ''='') \<or> (is_b64 c \<and> (d = CHR ''='' \<or> is_b64 d))))"
| "validateBase64 (a # b # c # d # rest) =
     (is_b64 a \<and> is_b64 b \<and> is_b64 c \<and> is_b64 d \<and> validateBase64 rest)"
| "validateBase64 _ = False"

fun b64_encode :: "bytes \<Rightarrow> string" where
  "b64_encode [] = []"
| "b64_encode [a] =
     [b64_char (unat a div 4), b64_char (unat a mod 4 * 16), CHR ''='', CHR ''='']"
| "b64_encode [a, b] =
     [b64_char (unat a div 4), b64_char (unat a mod 4 * 16 + unat b div 16),
      b64_char (unat b mod 16 * 4), CHR ''='']"
| "b64_encode (a # b # c # rest) =
     [b64_char (unat a div 4), b64_char (unat a mod 4 * 16 + unat b div 16),
      b64_char (unat b mod 16 * 4 + unat c div 64), b64_char (unat c mod 64)]
     @ b64_encode rest"

text \<open>The bytes of a string that has passed \<^const>\<open>validateBase64\<close>.\<close>

fun b64_decode :: "string \<Rightarrow> bytes" where
  "b64_decode (a # b # c # d # rest) =
     (let x = b64_value a; y = b64_value b; z = b64_value c; w = b64_value d in
      if c = CHR ''='' then [byte_of_nat (x * 4 + y div 16)]
      else if d = CHR ''='' then
        [byte_of_nat (x * 4 + y div 16), byte_of_nat (y mod 16 * 16 + z div 4)]
      else byte_of_nat (x * 4 + y div 16) # byte_of_nat (y mod 16 * 16 + z div 4)
           # byte_of_nat (z mod 4 * 64 + w) # b64_decode rest)"
| "b64_decode _ = []"

definition encodeBase64 :: "bytes \<Rightarrow> string" where
  "encodeBase64 arr = b64_encode arr"

text \<open>\<^verbatim>\<open>util.decodeBase64\<close> throws \<^verbatim>\<open>TypeError('invalid encoding')\<close> when validation fails.\<close>

definition decodeBase64 :: "string \<Rightarrow> error + bytes" where
  "decodeBase64 s =
     (if \<not> validateBase64 s then Inl (TypeError ''invalid encoding'')
      else Inr (b64_decode s))"

definition is_high_surrogate :: "16 word \<Rightarrow> bool" where
  "is_high_surrogate c = (0xD800 \<le> unat c \<and> unat c \<le> 0xDBFF)"

definition is_low_surrogate :: "16 word \<Rightarrow> bool" where
  "is_low_surrogate c = (0xDC00 \<le> unat c \<and> unat c \<le> 0xDFFF)"

text \<open>
  A string is well formed (it is Unicode text, so it has a UTF-8 form) when every
  surrogate code unit is half of a high-low pair.
\<close>

fun is_well_formed :: "jsstring \<Rightarrow> bool" where
  "is_well_formed [] = True"
| "is_well_formed (c # cs) =
     (if is_low_surrogate c then False
      else if \<not> is_high_surrogate c then is_well_formed cs
      else (case cs of [] \<Rightarrow> False | k # ks \<Rightarrow> is_low_surrogate k \<and> is_well_formed ks))"

definition utf8_octets :: "nat \<Rightarrow> bytes" where
  "utf8_octets v =
     (if v < 0x80 then [byte_of_nat v]
      else if v < 0x800 then [byte_of_nat (0xC0 + v div 64), byte_of_nat (0x80 + v mod 64)]
      else if v < 0x10000 then
        [byte_of_nat (0xE0 + v div 4096), byte_of_nat (0x80 + v div 64 mod 64),
         byte_of_nat (0x80 + v mod 64)]
      else
        [byte_of_nat (0xF0 + v div 262144), byte_of_nat (0x80 + v div 4096 mod 64),
         byte_of_nat (0x80 + v div 64 mod 64), byte_of_nat (0x80 + v mod 64)])"

text \<open>
  \<^verbatim>\<open>unescape(encodeURIComponent(s))\<close>: the UTF-8 octets of the string, one character per
  octet. \<^verbatim>\<open>encodeURIComponent\<close> throws a \<^verbatim>\<open>URIError\<close> (here \<^const>\<open>None\<close>) at a low surrogate
  that follows no high one and at a high surrogate that no low one follows.
\<close>

fun utf8_encode :: "jsstring \<Rightarrow> bytes option" where
  "utf8_encode [] = Some []"
| "utf8_encode (c # cs) =
     (if is_low_surrogate c then None
      else if \<not> is_high_surrogate c then
        map_option (\<lambda>bs. utf8_octets (unat c) @ bs) (utf8_encode cs)
      else
        (case cs of
           [] \<Rightarrow> None
         | k # ks \<Rightarrow>
             if \<not> is_low_surrogate k then None
             else map_option
                    (\<lambda>bs. utf8_octets ((unat c - 0xD800) * 0x400 + (unat k - 0xDC00) + 0x10000) @ bs)
                    (utf8_encode ks)))"

definition is_continuation :: "byte \<Rightarrow> bool" where
  "is_continuation b = (0x80 \<le> unat b \<and> unat b < 0xC0)"

definition utf16_units :: "nat \<Rightarrow> jsstring" where
  "utf16_units v =
     (if v < 0x10000 then [unit_of_nat v]
      else [unit_of_nat (0xD800 + (v - 0x10000) div 0x400),
            unit_of_nat (0xDC00 + (v - 0x10000) mod 0x400)])"

text \<open>
  \<^verbatim>\<open>decodeURIComponent(escape(d))\<close>: the string whose UTF-8 octets are the characters of
  \<open>d\<close>. \<^verbatim>\<open>decodeURIComponent\<close> throws a \<^verbatim>\<open>URIError\<close> (here \<^const>\<open>None\<close>) at a lead octet
  that announces one or more than four octets, at a missing or wrong continuation octet,
  and at octets that are not the UTF-8 form of a code point (an overlong form, a
  surrogate, a value above 0x10FFFF).
\<close>

fun utf8_decode :: "bytes \<Rightarrow> jsstring option" where
  "utf8_decode [] = Some []"
| "utf8_decode (b # bs) =
     (if unat b < 0x80 then map_option (\<lambda>s. unit_of_nat (unat b) # s) (utf8_decode bs)
      else if unat b < 0xC0 then None
      else if unat b < 0xE0 then
        (case bs of
           b1 # rest \<Rightarrow>
             (let v = (unat b - 0xC0) * 64 + (unat b1 - 0x80) in
              if \<not> is_continuation b1 \<or> v < 0x80 then None
              else map_option (\<lambda>s. utf16_units v @ s) (utf8_decode rest))
         | _ \<Rightarrow> None)
      else if unat b < 0xF0 then
        (case bs of
           b1 # b2 # rest \<Rightarrow>
             (let v = (unat b - 0xE0) * 4096 + (unat b1 - 0x80) * 64 + (unat b2 - 0x80) in
              if \<not> is_continuation b1 \<or> \<not> is_continuation b2
                 \<or> v < 0x800 \<or> (0xD800 \<le> v \<and> v \<le> 0xDFFF) then None
              else map_option (\<lambda>s. utf16_units v @ s) (utf8_decode rest))
         | _ \<Rightarrow> None)
      else if unat b < 0xF8 then
        (case bs of
           b1 # b2 # b3 # rest \<Rightarrow>
             (let v = (unat b - 0xF0) * 262144 + (unat b1 - 0x80) * 4096
                      + (unat b2 - 0x80) * 64 + (unat b3 - 0x80) in
              if \<not> is_continuation b1 \<or> \<not> is_continuation b2 \<or> \<not> is_continuation b3
                 \<or> v < 0x10000 \<or> v > 0x10FFFF then None
              else map_option (\<lambda>s. utf16_units v @ s) (utf8_decode rest))
         | _ \<Rightarrow> None)
      else None)"

text \<open>
  \<^verbatim>\<open>util.decodeUTF8(s)\<close>: from a string to its UTF-8 bytes. The messages of the errors
  that the engine itself raises, here and in \<^verbatim>\<open>util.encodeUTF8\<close>, are those of V8, the
  engine of Node.js; another engine words them differently and raises the same classes.
\<close>

definition decodeUTF8 :: "jsstring \<Rightarrow> error + bytes" where
  "decodeUTF8 s =
     (case utf8_encode s of
        None \<Rightarrow> Inl (URIError ''URI malformed'')
      | Some d \<Rightarrow> Inr d)"

text \<open>
  \<^verbatim>\<open>util.encodeUTF8(arr)\<close>: from UTF-8 bytes to the string. Its first step reads
  \<^verbatim>\<open>arr.length\<close>, which throws a \<^verbatim>\<open>TypeError\<close> when \<^verbatim>\<open>arr\<close> is \<^verbatim>\<open>null\<close>; the argument is
  nullable because \<^verbatim>\<open>decryptAsymmetric\<close> passes the result of \<^verbatim>\<open>nacl.box.open\<close> on, typed
  \<^verbatim>\<open>any\<close>.
\<close>

definition encodeUTF8 :: "bytes option \<Rightarrow> error + jsstring" where
  "encodeUTF8 arr =
     (case arr of
        None \<Rightarrow> Inl (TypeError ''Cannot read properties of null (reading 'length')'')
      | Some d \<Rightarrow>
          (case utf8_decode d of
             None \<Rightarrow> Inl (URIError ''URI malformed'')
           | Some s \<Rightarrow> Inr s))"

section \<open>tweetnacl: the box\<close>

text \<open>
  The cryptographic core of tweetnacl (Curve25519, XSalsa20, Poly1305) is a parameter:
  \<^item> \<open>crypto_scalarmult_base sk\<close> is the public key of the secret key \<open>sk\<close>;
  \<^item> \<open>crypto_box_beforenm pk sk\<close> is the shared key of a public and a secret key;
  \<^item> \<open>crypto_secretbox m n k\<close> is the sealed box of \<open>m\<close> (authenticator, then body),
    without the zero padding that the high-level functions add and strip;
  \<^item> \<open>crypto_secretbox_open c n k\<close> is the message of a box, or \<^const>\<open>None\<close> when
    the authenticator does not verify.
  The high-level functions around it, with their length checks, are modelled in full.
\<close>

record nacl_core =
  crypto_scalarmult_base :: "bytes \<Rightarrow> bytes"
  crypto_box_beforenm :: "bytes \<Rightarrow> bytes \<Rightarrow> bytes"
  crypto_secretbox :: "bytes \<Rightarrow> bytes \<Rightarrow> bytes \<Rightarrow> bytes"
  crypto_secretbox_open :: "bytes \<Rightarrow> bytes \<Rightarrow> bytes \<Rightarrow> bytes option"

definition checkLengths :: "bytes \<Rightarrow> bytes \<Rightarrow> error + unit" where
  "checkLengths k n =
     (if length k \<noteq> 32 then Inl (Error ''bad key size'')
      else if length n \<noteq> 24 then Inl (Error ''bad nonce size'')
      else Inr ())"

definition checkBoxLengths :: "bytes \<Rightarrow> bytes \<Rightarrow> error + unit" where
  "checkBoxLengths pk sk =
     (if length pk \<noteq> 32 then Inl (Error ''bad public key size'')
      else if length sk \<noteq> 32 then Inl (Error ''bad secret key size'')
      else Inr ())"

definition nacl_box_before :: "nacl_core \<Rightarrow> bytes \<Rightarrow> bytes \<Rightarrow> error + bytes" where
  "nacl_box_before core pk sk =
     (case checkBoxLengths pk sk of
        Inl e \<Rightarrow> Inl e
      | Inr _ \<Rightarrow> Inr (crypto_box_beforenm core pk sk))"

definition nacl_secretbox :: "nacl_core \<Rightarrow> bytes \<Rightarrow> bytes \<Rightarrow> bytes \<Rightarrow> error + bytes" where
  "nacl_secretbox core msg n k =
     (case checkLengths k n of
        Inl e \<Rightarrow> Inl e
      | Inr _ \<Rightarrow> Inr (crypto_secretbox core msg n k))"

text \<open>\<^verbatim>\<open>nacl.secretbox.open\<close> returns \<^verbatim>\<open>null\<close> for a box shorter than its authenticator
  and for one that does not verify.\<close>

definition nacl_secretbox_open ::
  "nacl_core \<Rightarrow> bytes \<Rightarrow> bytes \<Rightarrow> bytes \<Rightarrow> error + bytes option" where
  "nacl_secretbox_open core box n k =
     (case checkLengths k n of
        Inl e \<Rightarrow> Inl e
      | Inr _ \<Rightarrow>
          if length box < 16 then Inr None
          else Inr (crypto_secretbox_open core box n k))"

definition nacl_box :: "nacl_core \<Rightarrow> bytes \<Rightarrow> bytes \<Rightarrow> bytes \<Rightarrow> bytes \<Rightarrow> error + bytes" where
  "nacl_box core msg n pk sk =
     (case nacl_box_before core pk sk of
        Inl e \<Rightarrow> Inl e
      | Inr k \<Rightarrow> nacl_secretbox core msg n k)"

definition nacl_box_open ::
  "nacl_core \<Rightarrow> bytes \<Rightarrow> bytes \<Rightarrow> bytes \<Rightarrow> bytes \<Rightarrow> error + bytes option" where
  "nacl_box_open core msg n pk sk =
     (case nacl_box_before core pk sk of
        Inl e \<Rightarrow> Inl e
      | Inr k \<Rightarrow> nacl_secretbox_open core msg n k)"

text \<open>\<^verbatim>\<open>nacl.box.keyPair()\<close>: 32 random bytes as the secret key, and their public key.\<close>

definition nacl_box_keyPair :: "nacl_core \<Rightarrow> rng \<Rightarrow> (bytes \<times> bytes) \<times> rng" where
  "nacl_box_keyPair core r =
     (let (sk, r') = randomBytes 32 r in ((crypto_scalarmult_base core sk, sk), r'))"

text \<open>
  What the functions above need of the core: keys of 32 bytes, the same shared key from
  either side, and a box that is 16 bytes longer than its message and opens to it.
\<close>

definition core_key_sizes :: "nacl_core \<Rightarrow> bool" where
  "core_key_sizes core \<longleftrightarrow>
     (\<forall>sk. length sk = 32 \<longrightarrow> length (crypto_scalarmult_base core sk) = 32)"

definition core_correct :: "nacl_core \<Rightarrow> bool" where
  "core_correct core \<longleftrightarrow>
     core_key_sizes core \<and>
     (\<forall>pk sk. length pk = 32 \<longrightarrow> length sk = 32 \<longrightarrow>
        length (crypto_box_beforenm core pk sk) = 32) \<and>
     (\<forall>a b. length a = 32 \<longrightarrow> length b = 32 \<longrightarrow>
        crypto_box_beforenm core (crypto_scalarmult_base core b) a
        = crypto_box_beforenm core (crypto_scalarmult_base core a) b) \<and>
     (\<forall>m n k. length n = 24 \<longrightarrow> length k = 32 \<longrightarrow>
        length (crypto_secretbox core m n k) = length m + 16 \<and>
        crypto_secretbox_open core (crypto_secretbox core m n k) n k = Some m)"

section \<open>crypto.ts\<close>

text \<open>\<^verbatim>\<open>generateKeyPair\<close>, lines 11 to 18.\<close>

definition generateKeyPair :: "nacl_core \<Rightarrow> rng \<Rightarrow> key_pair \<times> rng" where
  "generateKeyPair core r =
     (let (pair, r') = nacl_box_keyPair core r in
      (\<lparr>publicKey = encodeBase64 (fst pair), privateKey = encodeBase64 (snd pair)\<rparr>, r'))"

text \<open>
  \<^verbatim>\<open>encryptAsymmetric\<close>, lines 31 to 52. The nonce is drawn first (line 40); the arguments
  of \<^verbatim>\<open>nacl.box\<close> are evaluated from left to right, so the first one that throws decides
  the error.
\<close>

definition encryptAsymmetric ::
  "nacl_core \<Rightarrow> jsstring \<Rightarrow> string \<Rightarrow> string \<Rightarrow> rng \<Rightarrow> (error + asymmetric_ciphertext) \<times> rng" where
  "encryptAsymmetric core plaintext publicKey' privateKey' r =
     (let (nonce', r') = randomBytes 24 r in
      ((case decodeUTF8 plaintext of
          Inl e \<Rightarrow> Inl e
        | Inr msg \<Rightarrow>
       (case decodeBase64 publicKey' of
          Inl e \<Rightarrow> Inl e
        | Inr pk \<Rightarrow>
       (case decodeBase64 privateKey' of
          Inl e \<Rightarrow> Inl e
        | Inr sk \<Rightarrow>
       (case nacl_box core msg nonce' pk sk of
          Inl e \<Rightarrow> Inl e
        | Inr ciphertext' \<Rightarrow>
            Inr \<lparr>ciphertext = encodeBase64 ciphertext', nonce = encodeBase64 nonce'\<rparr>)))),
       r'))"

text \<open>
  \<^verbatim>\<open>decryptAsymmetric\<close>, lines 64 to 83. The result of \<^verbatim>\<open>nacl.box.open\<close>, \<^verbatim>\<open>null\<close> included,
  goes to \<^verbatim>\<open>util.encodeUTF8\<close> as it is (line 82).
\<close>

definition decryptAsymmetric ::
  "nacl_core \<Rightarrow> string \<Rightarrow> string \<Rightarrow> string \<Rightarrow> string \<Rightarrow> error + jsstring" where
  "decryptAsymmetric core ciphertext' nonce' publicKey' privateKey' =
     (case decodeBase64 ciphertext' of
        Inl e \<Rightarrow> Inl e
      | Inr box \<Rightarrow>
     (case decodeBase64 nonce' of
        Inl e \<Rightarrow> Inl e
      | Inr n \<Rightarrow>
     (case decodeBase64 publicKey' of
        Inl e \<Rightarrow> Inl e
      | Inr pk \<Rightarrow>
     (case decodeBase64 privateKey' of
        Inl e \<Rightarrow> Inl e
      | Inr sk \<Rightarrow>
     (case nacl_box_open core box n pk sk of
        Inl e \<Rightarrow> Inl e
      | Inr plaintext \<Rightarrow> encodeUTF8 plaintext)))))"

text \<open>
  \<^verbatim>\<open>./aes-gcm\<close> is not part of the sources at hand, so \<^verbatim>\<open>AesGCM\<close> is a parameter of the two
  symmetric functions: \<^verbatim>\<open>AesGCM.encrypt\<close> reads the random source and returns an object
  with at least the fields \<^verbatim>\<open>ciphertext\<close>, \<^verbatim>\<open>iv\<close> and \<^verbatim>\<open>tag\<close>, or throws; \<^verbatim>\<open>AesGCM.decrypt\<close>
  returns a string or throws.
\<close>

record 'z AesGCM =
  AesGCM_encrypt ::
    "jsstring \<Rightarrow> string \<Rightarrow> rng \<Rightarrow> (error + 'z symmetric_ciphertext_scheme) \<times> rng"
  AesGCM_decrypt :: "string \<Rightarrow> string \<Rightarrow> string \<Rightarrow> string \<Rightarrow> error + jsstring"

text \<open>\<^verbatim>\<open>encryptSymmetric\<close>, lines 91 to 106: the three fields of the object, in a new object.\<close>

definition encryptSymmetric ::
  "'z AesGCM \<Rightarrow> jsstring \<Rightarrow> string \<Rightarrow> rng \<Rightarrow> (error + symmetric_ciphertext) \<times> rng" where
  "encryptSymmetric aes plaintext key r =
     (case AesGCM_encrypt aes plaintext key r of
        (Inl e, r') \<Rightarrow> (Inl e, r')
      | (Inr obj, r') \<Rightarrow>
          (Inr \<lparr>ciphertext = ciphertext obj, iv = iv obj, tag = tag obj\<rparr>, r'))"

text \<open>\<^verbatim>\<open>decryptSymmetric\<close>, lines 118 to 131.\<close>

definition decryptSymmetric ::
  "'z AesGCM \<Rightarrow> string \<Rightarrow> string \<Rightarrow> string \<Rightarrow> string \<Rightarrow> error + jsstring" where
  "decryptSymmetric aes ciphertext' iv' tag' key =
     (case AesGCM_decrypt aes ciphertext' iv' tag' key of
        Inl e \<Rightarrow> Inl e
      | Inr plaintext \<Rightarrow> Inr plaintext)"

section \<open>The symmetric primitive, from the specification\<close>

text \<open>
  The specification treats the block cipher as a trusted library with two operations,
  \<^verbatim>\<open>aead_seal\<close> and \<^verbatim>\<open>aead_open\<close>, and fixed sizes for key, IV and tag. They are a
  parameter, as the core of the box is.
\<close>

record aead =
  aead_key_size :: nat
  aead_iv_size :: nat
  aead_tag_size :: nat
  aead_seal :: "bytes \<Rightarrow> bytes \<Rightarrow> bytes \<Rightarrow> bytes \<times> bytes"
  aead_open :: "bytes \<Rightarrow> bytes \<Rightarrow> bytes \<Rightarrow> bytes \<Rightarrow> bytes option"

text \<open>A tag of the fixed size, and a sealed message that opens to what was sealed.\<close>

definition aead_correct :: "aead \<Rightarrow> bool" where
  "aead_correct A \<longleftrightarrow>
     (\<forall>k v m. length k = aead_key_size A \<longrightarrow> length v = aead_iv_size A \<longrightarrow>
        length (snd (aead_seal A k v m)) = aead_tag_size A \<and>
        aead_open A k v (fst (aead_seal A k v m)) (snd (aead_seal A k v m)) = Some m)"

definition hex_value :: "char \<Rightarrow> nat option" where
  "hex_value c =
     (case index_of c ''0123456789abcdef'' of
        Some i \<Rightarrow> Some i
      | None \<Rightarrow> map_option (\<lambda>i. i + 10) (index_of c ''ABCDEF''))"

fun hex_decode :: "string \<Rightarrow> bytes option" where
  "hex_decode [] = Some []"
| "hex_decode [a] = None"
| "hex_decode (a # b # rest) =
     (case (hex_value a, hex_value b) of
        (Some x, Some y) \<Rightarrow> map_option (\<lambda>bs. byte_of_nat (x * 16 + y) # bs) (hex_decode rest)
      | _ \<Rightarrow> None)"

text \<open>
  Modelled from the spec: \<^verbatim>\<open>AesGCM.encrypt\<close> of \<^verbatim>\<open>./aes-gcm\<close>, which is not among the
  sources. Section 4.4: decode the key from hex and fail with \<^verbatim>\<open>KeyFormatError\<close> if it is
  malformed or of the wrong length; draw a fresh IV of the cipher's length; encrypt the
  plaintext bytes under key and IV into a ciphertext and a separate tag; return
  ciphertext, IV and tag independently. The three are returned in base64, the binary
  encoding of the specification's codec (section 6 leaves the choice open, asking only
  that it be consistent); text that has no UTF-8 form is an \<^verbatim>\<open>EncodingError\<close>.
\<close>

definition SymmetricCipher_encrypt ::
  "aead \<Rightarrow> jsstring \<Rightarrow> string \<Rightarrow> rng \<Rightarrow> (error + symmetric_ciphertext) \<times> rng" where
  "SymmetricCipher_encrypt A plaintext key r =
     (case hex_decode key of
        None \<Rightarrow> (Inl KeyFormatError, r)
      | Some k \<Rightarrow>
          if length k \<noteq> aead_key_size A then (Inl KeyFormatError, r)
          else
            (let (v, r') = randomBytes (aead_iv_size A) r in
             (case utf8_encode plaintext of
                None \<Rightarrow> (Inl EncodingError, r')
              | Some m \<Rightarrow>
                  (let (c, t) = aead_seal A k v m in
                   (Inr \<lparr>ciphertext = encodeBase64 c, iv = encodeBase64 v,
                         tag = encodeBase64 t\<rparr>, r')))))"

text \<open>
  Modelled from the spec: \<^verbatim>\<open>AesGCM.decrypt\<close> of \<^verbatim>\<open>./aes-gcm\<close>, which is not among the
  sources. Section 4.4: decode all inputs and fail with format errors on malformed
  encoding or wrong component lengths; verify the tag and decrypt only if it verifies,
  failing with \<^verbatim>\<open>AuthenticationError\<close> otherwise; decode the recovered bytes as UTF-8 and
  fail with \<^verbatim>\<open>EncodingError\<close> if they are not. Section 7 names the format errors:
  \<^verbatim>\<open>EncodingError\<close> for malformed base64, \<^verbatim>\<open>KeyFormatError\<close> for a wrong length.
\<close>

definition SymmetricCipher_decrypt ::
  "aead \<Rightarrow> string \<Rightarrow> string \<Rightarrow> string \<Rightarrow> string \<Rightarrow> error + jsstring" where
  "SymmetricCipher_decrypt A ciphertext' iv' tag' key =
     (case hex_decode key of
        None \<Rightarrow> Inl KeyFormatError
      | Some k \<Rightarrow>
          if length k \<noteq> aead_key_size A then Inl KeyFormatError
          else if \<not> validateBase64 ciphertext' \<or> \<not> validateBase64 iv' \<or> \<not> validateBase64 tag'
          then Inl EncodingError
          else if length (b64_decode iv') \<noteq> aead_iv_size A
                  \<or> length (b64_decode tag') \<noteq> aead_tag_size A
          then Inl KeyFormatError
          else
            (case aead_open A k (b64_decode iv') (b64_decode ciphertext') (b64_decode tag') of
               None \<Rightarrow> Inl AuthenticationError
             | Some m \<Rightarrow>
                 (case utf8_decode m of
                    None \<Rightarrow> Inl EncodingError
                  | Some s \<Rightarrow> Inr s)))"

definition SymmetricCipher :: "aead \<Rightarrow> unit AesGCM" where
  "SymmetricCipher A =
     \<lparr>AesGCM_encrypt = SymmetricCipher_encrypt A, AesGCM_decrypt = SymmetricCipher_decrypt A\<rparr>"

section \<open>Small primitives to run the functions on\<close>

text \<open>
  A core and a cipher that can be computed by hand, with the functional behaviour the
  functions above rely on (and none of the security): the public key is the secret key
  times 3, byte by byte, the shared key is the product of a public and a secret key, the
  body of a box is the message XOR a pad made from key and nonce, and the authenticator is
  16 copies of a checksum of pad and body.
\<close>

definition toy_pad :: "bytes \<Rightarrow> bytes \<Rightarrow> byte" where
  "toy_pad k n = sum_list k + sum_list n"

definition toy_mac :: "bytes \<Rightarrow> bytes \<Rightarrow> bytes \<Rightarrow> bytes" where
  "toy_mac k n body = replicate 16 (toy_pad k n * 7 + sum_list body + 1)"

definition toy_stream :: "bytes \<Rightarrow> bytes \<Rightarrow> bytes \<Rightarrow> bytes" where
  "toy_stream k n m = map (\<lambda>b. b XOR toy_pad k n) m"

definition toy_core :: nacl_core where
  "toy_core =
     \<lparr>crypto_scalarmult_base = map (\<lambda>b. 3 * b),
      crypto_box_beforenm = (\<lambda>pk sk. map2 (*) pk sk),
      crypto_secretbox = (\<lambda>m n k. toy_mac k n (toy_stream k n m) @ toy_stream k n m),
      crypto_secretbox_open = (\<lambda>c n k.
         if take 16 c = toy_mac k n (drop 16 c) then Some (toy_stream k n (drop 16 c))
         else None)\<rparr>"

definition toy_aead :: aead where
  "toy_aead =
     \<lparr>aead_key_size = 32, aead_iv_size = 12, aead_tag_size = 16,
      aead_seal = (\<lambda>k v m. (toy_stream k v m, toy_mac k v (toy_stream k v m))),
      aead_open = (\<lambda>k v c t.
         if t = toy_mac k v c then Some (toy_stream k v c) else None)\<rparr>"

definition counter_rng :: "nat \<Rightarrow> rng" where
  "counter_rng start = \<lparr>tape = (\<lambda>i. byte_of_nat (start + i)), pos = 0\<rparr>"




section \<open>Notions used in the statements\<close>



text \<open>
  Bytes are valid UTF-8 when they are the UTF-8 form of some string (which is then well
  formed, since only a well-formed string has one).
\<close>

definition valid_utf8 :: "bytes \<Rightarrow> bool" where
  "valid_utf8 m \<longleftrightarrow> (\<exists>s. utf8_encode s = Some m)"

text \<open>A key or nonce argument that is not base64 or does not decode to the right length.\<close>

definition bad_key :: "string \<Rightarrow> bool" where
  "bad_key s = (case decodeBase64 s of Inl _ \<Rightarrow> True | Inr b \<Rightarrow> length b \<noteq> 32)"

definition bad_nonce :: "string \<Rightarrow> bool" where
  "bad_nonce s = (case decodeBase64 s of Inl _ \<Rightarrow> True | Inr b \<Rightarrow> length b \<noteq> 24)"



section \<open>Bytes and code units\<close>

lemma byte_bound: "unat (a :: byte) < 256"
  using unsigned_less[of a, where ?'a = nat] by simp

lemma unit_bound: "unat (a :: 16 word) < 65536"
  using unsigned_less[of a, where ?'a = nat] by simp

lemma byte_of_nat_unat [simp]: "byte_of_nat (unat a) = a"
  by (simp add: byte_of_nat_def)

lemma unit_of_nat_unat [simp]: "unit_of_nat (unat a) = a"
  by (simp add: unit_of_nat_def)

lemma unat_byte_of_nat: "n < 256 \<Longrightarrow> unat (byte_of_nat n) = n"
  by (simp add: byte_of_nat_def unat_of_nat)

lemma unat_unit_of_nat: "n < 65536 \<Longrightarrow> unat (unit_of_nat n) = n"
  by (simp add: unit_of_nat_def unat_of_nat)

section \<open>Base64: decoding undoes encoding\<close>

lemma index_of_nth: "distinct xs \<Longrightarrow> i < length xs \<Longrightarrow> index_of (xs ! i) xs = Some i"
proof (induction xs arbitrary: i)
  case Nil
  then show ?case by simp
next
  case (Cons y ys)
  show ?case
  proof (cases i)
    case 0
    then show ?thesis by simp
  next
    case (Suc j)
    with Cons.prems have "ys ! j \<noteq> y" "j < length ys" "distinct ys" by auto
    with Cons.IH[of j] Suc show ?thesis by simp
  qed
qed

lemma b64_alphabet_distinct: "distinct b64_alphabet"
  by (simp add: b64_alphabet_def)

lemma b64_alphabet_length: "length b64_alphabet = 64"
  by (simp add: b64_alphabet_def)

lemma index_b64_char: "i < 64 \<Longrightarrow> index_of (b64_char i) b64_alphabet = Some i"
  unfolding b64_char_def
  using index_of_nth[OF b64_alphabet_distinct, of i] by (simp add: b64_alphabet_length)

lemma is_b64_char [simp]: "i < 64 \<Longrightarrow> is_b64 (b64_char i)"
  by (simp add: is_b64_def index_b64_char)

lemma b64_value_char [simp]: "i < 64 \<Longrightarrow> b64_value (b64_char i) = i"
  by (simp add: b64_value_def index_b64_char)

lemma eq_not_b64: "\<not> is_b64 (CHR ''='')"
  by (simp add: is_b64_def b64_alphabet_def)

lemma b64_char_not_eq [simp]: "i < 64 \<Longrightarrow> b64_char i \<noteq> CHR ''=''"
  using eq_not_b64 is_b64_char by metis

lemma validate_encode: "validateBase64 (b64_encode bs)"
proof (induction bs rule: b64_encode.induct)
  case 1
  then show ?case by simp
next
  case (2 a)
  have "unat a div 4 < 64" "unat a mod 4 * 16 < 64" using byte_bound[of a] by auto
  then show ?case by simp
next
  case (3 a b)
  have "unat a div 4 < 64" "unat a mod 4 * 16 + unat b div 16 < 64" "unat b mod 16 * 4 < 64"
    using byte_bound[of a] byte_bound[of b] by auto
  then show ?case by simp
next
  case (4 a b c rest)
  have h: "unat a div 4 < 64" "unat a mod 4 * 16 + unat b div 16 < 64"
    "unat b mod 16 * 4 + unat c div 64 < 64" "unat c mod 64 < 64"
    using byte_bound[of a] byte_bound[of b] byte_bound[of c] by auto
  show ?case
  proof (cases "b64_encode rest")
    case Nil
    with h show ?thesis by simp
  next
    case (Cons x xs)
    with h 4 show ?thesis by simp
  qed
qed

lemma sx1: "a div 4 * 4 + (a mod 4 * 16 + b div 16) div 16 = (a::nat)" if "b < 256"
proof -
  have "b div 16 < 16" using that by simp
  then have "(a mod 4 * 16 + b div 16) div 16 = a mod 4" by simp
  then show ?thesis by simp
qed

lemma sx2: "(a mod 4 * 16 + b div 16) mod 16 * 16 + (b mod 16 * 4 + c div 64) div 4 = (b::nat)"
  if "b < 256" "c < 256"
proof -
  have "b div 16 < 16" using that by simp
  then have 1: "(a mod 4 * 16 + b div 16) mod 16 = b div 16" by simp
  have "c div 64 < 4" using that by simp
  then have 2: "(b mod 16 * 4 + c div 64) div 4 = b mod 16" by simp
  show ?thesis unfolding 1 2 by simp
qed

lemma sx3: "(b mod 16 * 4 + c div 64) mod 4 * 64 + c mod 64 = (c::nat)" if "c < 256"
proof -
  have "c div 64 < 4" using that by simp
  then have 1: "(b mod 16 * 4 + c div 64) mod 4 = c div 64" by simp
  show ?thesis unfolding 1 by simp
qed

lemma decode_encode: "b64_decode (b64_encode bs) = bs"
proof (induction bs rule: b64_encode.induct)
  case 1
  then show ?case by simp
next
  case (2 a)
  have h: "unat a div 4 < 64" "unat a mod 4 * 16 < 64" using byte_bound[of a] by auto
  have "byte_of_nat (unat a div 4 * 4 + (unat a mod 4 * 16) div 16) = a" by simp
  with h show ?case by (simp del: byte_of_nat_unat)
next
  case (3 a b)
  have h: "unat a div 4 < 64" "unat a mod 4 * 16 + unat b div 16 < 64" "unat b mod 16 * 4 < 64"
    using byte_bound[of a] byte_bound[of b] by auto
  have e1: "byte_of_nat (unat a div 4 * 4 + (unat a mod 4 * 16 + unat b div 16) div 16) = a"
    by (simp only: sx1[OF byte_bound] byte_of_nat_unat)
  have e2: "byte_of_nat ((unat a mod 4 * 16 + unat b div 16) mod 16 * 16
             + unat b mod 16 * 4 div 4) = b"
    using sx2[where a = "unat a" and b = "unat b" and c = 0] byte_bound[of b] by simp
  show ?case
    by (simp only: b64_encode.simps b64_decode.simps Let_def
        b64_value_char[OF h(1)] b64_value_char[OF h(2)] b64_value_char[OF h(3)]
        b64_char_not_eq[OF h(3)] if_False e1 e2) simp
next
  case (4 a b c rest)
  have h: "unat a div 4 < 64" "unat a mod 4 * 16 + unat b div 16 < 64"
    "unat b mod 16 * 4 + unat c div 64 < 64" "unat c mod 64 < 64"
    using byte_bound[of a] byte_bound[of b] byte_bound[of c] by auto
  have e1: "byte_of_nat (unat a div 4 * 4 + (unat a mod 4 * 16 + unat b div 16) div 16) = a"
    by (simp only: sx1[OF byte_bound] byte_of_nat_unat)
  have e2: "byte_of_nat ((unat a mod 4 * 16 + unat b div 16) mod 16 * 16
            + (unat b mod 16 * 4 + unat c div 64) div 4) = b"
    by (simp only: sx2[OF byte_bound byte_bound] byte_of_nat_unat)
  have e3: "byte_of_nat ((unat b mod 16 * 4 + unat c div 64) mod 4 * 64 + unat c mod 64) = c"
    by (simp only: sx3[OF byte_bound] byte_of_nat_unat)
  show ?case
    by (simp only: b64_encode.simps b64_decode.simps append_Cons append_Nil Let_def
        b64_value_char[OF h(1)] b64_value_char[OF h(2)] b64_value_char[OF h(3)]
        b64_value_char[OF h(4)] b64_char_not_eq[OF h(3)] b64_char_not_eq[OF h(4)]
        if_False e1 e2 e3 4)
qed

section \<open>UTF-8: decoding undoes encoding\<close>

lemma split3: "(v::nat) div 4096 * 4096 + v div 64 mod 64 * 64 + v mod 64 = v"
proof -
  have "v mod 4096 = 64 * (v div 64 mod 64) + v mod 64"
    using mod_mult2_eq[of v 64 64] by simp
  moreover have "v div 4096 * 4096 + v mod 4096 = v" by (rule div_mult_mod_eq)
  ultimately show ?thesis by linarith
qed

lemma split4:
  "(v::nat) div 262144 * 262144 + v div 4096 mod 64 * 4096 + v div 64 mod 64 * 64 + v mod 64 = v"
proof -
  have "v mod 4096 = 64 * (v div 64 mod 64) + v mod 64"
    using mod_mult2_eq[of v 64 64] by simp
  moreover have "v mod 262144 = 4096 * (v div 4096 mod 64) + v mod 4096"
    using mod_mult2_eq[of v 4096 64] by simp
  moreover have "v div 262144 * 262144 + v mod 262144 = v" by (rule div_mult_mod_eq)
  ultimately show ?thesis by linarith
qed

lemma decode_octets_1:
  assumes "v < 0x80"
  shows "utf8_decode (utf8_octets v @ rest) = map_option (\<lambda>s. utf16_units v @ s) (utf8_decode rest)"
proof -
  have u: "unat (byte_of_nat v) = v" using assms by (simp add: unat_byte_of_nat)
  show ?thesis using assms by (simp add: utf8_octets_def utf16_units_def u)
qed

lemma decode_octets_2:
  assumes "0x80 \<le> v" "v < 0x800"
  shows "utf8_decode (utf8_octets v @ rest) = map_option (\<lambda>s. utf16_units v @ s) (utf8_decode rest)"
proof -
  have d: "v div 64 < 32" using assms by simp
  have u0: "unat (byte_of_nat (0xC0 + v div 64)) = 0xC0 + v div 64"
    using d by (simp add: unat_byte_of_nat)
  have u1: "unat (byte_of_nat (0x80 + v mod 64)) = 0x80 + v mod 64"
    by (simp add: unat_byte_of_nat)
  have c1: "is_continuation (byte_of_nat (0x80 + v mod 64))"
    unfolding is_continuation_def u1 by simp
  have r: "(0xC0 + v div 64 - 0xC0) * 64 + (0x80 + v mod 64 - 0x80) = v" by simp
  have o: "utf8_octets v = [byte_of_nat (0xC0 + v div 64), byte_of_nat (0x80 + v mod 64)]"
    using assms by (simp add: utf8_octets_def)
  show ?thesis
    unfolding o using assms d c1
    by (simp add: u0 u1 Let_def del: is_continuation_def)
qed


lemma decode_octets_3:
  assumes "0x800 \<le> v" "v < 0x10000" "\<not> (0xD800 \<le> v \<and> v \<le> 0xDFFF)"
  shows "utf8_decode (utf8_octets v @ rest) = map_option (\<lambda>s. utf16_units v @ s) (utf8_decode rest)"
proof -
  have d: "v div 4096 < 16" using assms by simp
  have u0: "unat (byte_of_nat (0xE0 + v div 4096)) = 0xE0 + v div 4096"
    using d by (simp add: unat_byte_of_nat)
  have u1: "unat (byte_of_nat (0x80 + v div 64 mod 64)) = 0x80 + v div 64 mod 64"
    by (simp add: unat_byte_of_nat)
  have u2: "unat (byte_of_nat (0x80 + v mod 64)) = 0x80 + v mod 64"
    by (simp add: unat_byte_of_nat)
  have c1: "is_continuation (byte_of_nat (0x80 + v div 64 mod 64))"
    unfolding is_continuation_def u1 by simp
  have c2: "is_continuation (byte_of_nat (0x80 + v mod 64))"
    unfolding is_continuation_def u2 by simp
  have r: "(0xE0 + v div 4096 - 0xE0) * 4096 + (0x80 + v div 64 mod 64 - 0x80) * 64
           + (0x80 + v mod 64 - 0x80) = v"
    using split3[of v] by simp
  have o: "utf8_octets v = [byte_of_nat (0xE0 + v div 4096),
            byte_of_nat (0x80 + v div 64 mod 64), byte_of_nat (0x80 + v mod 64)]"
    using assms by (simp add: utf8_octets_def)
  have b0: "\<not> 0xE0 + v div 4096 < (0x80::nat)" "\<not> 0xE0 + v div 4096 < (0xC0::nat)"
    "\<not> 0xE0 + v div 4096 < (0xE0::nat)" "0xE0 + v div 4096 < (0xF0::nat)"
    using d by simp_all
  have g: "\<not> (\<not> is_continuation (byte_of_nat (0x80 + v div 64 mod 64))
      \<or> \<not> is_continuation (byte_of_nat (0x80 + v mod 64))
      \<or> v < 0x800 \<or> (0xD800 \<le> v \<and> v \<le> 0xDFFF))"
    using assms c1 c2 by simp
  show ?thesis
    unfolding o
    by (simp only: append_Cons append_Nil utf8_decode.simps u0 u1 u2 b0 if_False if_True
        list.case Let_def r g)
qed

lemma decode_octets_4:
  assumes "0x10000 \<le> v" "v \<le> 0x10FFFF"
  shows "utf8_decode (utf8_octets v @ rest) = map_option (\<lambda>s. utf16_units v @ s) (utf8_decode rest)"
proof -
  have d: "v div 262144 < 8" using assms by simp
  have u0: "unat (byte_of_nat (0xF0 + v div 262144)) = 0xF0 + v div 262144"
    using d by (simp add: unat_byte_of_nat)
  have u1: "unat (byte_of_nat (0x80 + v div 4096 mod 64)) = 0x80 + v div 4096 mod 64"
    by (simp add: unat_byte_of_nat)
  have u2: "unat (byte_of_nat (0x80 + v div 64 mod 64)) = 0x80 + v div 64 mod 64"
    by (simp add: unat_byte_of_nat)
  have u3: "unat (byte_of_nat (0x80 + v mod 64)) = 0x80 + v mod 64"
    by (simp add: unat_byte_of_nat)
  have c1: "is_continuation (byte_of_nat (0x80 + v div 4096 mod 64))"
    unfolding is_continuation_def u1 by simp
  have c2: "is_continuation (byte_of_nat (0x80 + v div 64 mod 64))"
    unfolding is_continuation_def u2 by simp
  have c3: "is_continuation (byte_of_nat (0x80 + v mod 64))"
    unfolding is_continuation_def u3 by simp
  have r: "(0xF0 + v div 262144 - 0xF0) * 262144 + (0x80 + v div 4096 mod 64 - 0x80) * 4096
           + (0x80 + v div 64 mod 64 - 0x80) * 64 + (0x80 + v mod 64 - 0x80) = v"
    using split4[of v] by simp
  have o: "utf8_octets v = [byte_of_nat (0xF0 + v div 262144),
            byte_of_nat (0x80 + v div 4096 mod 64),
            byte_of_nat (0x80 + v div 64 mod 64), byte_of_nat (0x80 + v mod 64)]"
    using assms by (simp add: utf8_octets_def)
  have b0: "\<not> 0xF0 + v div 262144 < (0x80::nat)" "\<not> 0xF0 + v div 262144 < (0xC0::nat)"
    "\<not> 0xF0 + v div 262144 < (0xE0::nat)" "\<not> 0xF0 + v div 262144 < (0xF0::nat)"
    "0xF0 + v div 262144 < (0xF8::nat)"
    using d by simp_all
  have g: "\<not> (\<not> is_continuation (byte_of_nat (0x80 + v div 4096 mod 64))
      \<or> \<not> is_continuation (byte_of_nat (0x80 + v div 64 mod 64))
      \<or> \<not> is_continuation (byte_of_nat (0x80 + v mod 64))
      \<or> v < 0x10000 \<or> v > 0x10FFFF)"
    using assms c1 c2 c3 by simp
  show ?thesis
    unfolding o
    by (simp only: append_Cons append_Nil utf8_decode.simps u0 u1 u2 u3 b0 if_False if_True
        list.case Let_def r g)
qed

lemma decode_octets:
  assumes "v < 0xD800 \<or> (0xE000 \<le> v \<and> v \<le> 0x10FFFF)"
  shows "utf8_decode (utf8_octets v @ rest) = map_option (\<lambda>s. utf16_units v @ s) (utf8_decode rest)"
proof -
  consider (a) "v < 0x80" | (b) "0x80 \<le> v" "v < 0x800"
    | (c) "0x800 \<le> v" "v < 0x10000" "\<not> (0xD800 \<le> v \<and> v \<le> 0xDFFF)"
    | (d) "0x10000 \<le> v" "v \<le> 0x10FFFF"
    using assms by linarith
  then show ?thesis
  proof cases
    case a
    then show ?thesis by (rule decode_octets_1)
  next
    case b
    then show ?thesis by (rule decode_octets_2)
  next
    case c
    then show ?thesis by (rule decode_octets_3)
  next
    case d
    then show ?thesis by (rule decode_octets_4)
  qed
qed

lemma units_single: "unat c < 0x10000 \<Longrightarrow> utf16_units (unat c) = [c]"
  by (simp add: utf16_units_def)

lemma pair_value:
  fixes h l :: nat
  assumes "0xD800 \<le> h" "h \<le> 0xDBFF" "0xDC00 \<le> l" "l \<le> 0xDFFF"
  defines "v \<equiv> (h - 0xD800) * 0x400 + (l - 0xDC00) + 0x10000"
  shows "0x10000 \<le> v" "v \<le> 0x10FFFF"
    "0xD800 + (v - 0x10000) div 0x400 = h" "0xDC00 + (v - 0x10000) mod 0x400 = l"
proof -
  show "0x10000 \<le> v" by (simp add: v_def)
  show "v \<le> 0x10FFFF" using assms(1-4) by (simp add: v_def)
  have e: "v - 0x10000 = (h - 0xD800) * 0x400 + (l - 0xDC00)" by (simp add: v_def)
  have s: "l - 0xDC00 < 0x400" using assms(3,4) by simp
  have "((h - 0xD800) * 0x400 + (l - 0xDC00)) div 0x400 = h - 0xD800"
    using s by simp
  then show "0xD800 + (v - 0x10000) div 0x400 = h" using assms(1) unfolding e by simp
  have "((h - 0xD800) * 0x400 + (l - 0xDC00)) mod 0x400 = l - 0xDC00"
    using s by simp
  then show "0xDC00 + (v - 0x10000) mod 0x400 = l" using assms(3) unfolding e by simp
qed

lemma units_pair:
  assumes "is_high_surrogate c" "is_low_surrogate k"
  shows "utf16_units ((unat c - 0xD800) * 0x400 + (unat k - 0xDC00) + 0x10000) = [c, k]"
proof -
  from assms have b: "0xD800 \<le> unat c" "unat c \<le> 0xDBFF" "0xDC00 \<le> unat k" "unat k \<le> 0xDFFF"
    by (simp_all add: is_high_surrogate_def is_low_surrogate_def)
  note pv = pair_value[OF b]
  show ?thesis
    unfolding utf16_units_def using pv(1)
    by (simp only: pv(3) pv(4) unit_of_nat_unat linorder_not_less[symmetric] if_False)
qed

lemma decode_encode_utf8: "utf8_encode s = Some bs \<Longrightarrow> utf8_decode bs = Some s"
proof (induction s arbitrary: bs rule: utf8_encode.induct)
  case 1
  then show ?case by simp
next
  case (2 c cs)
  show ?case
  proof (cases "is_high_surrogate c")
    case False
    with "2.prems" have nl: "\<not> is_low_surrogate c" by (auto split: if_splits)
    with False "2.prems" obtain bs' where e: "utf8_encode cs = Some bs'"
      and bs: "bs = utf8_octets (unat c) @ bs'" by auto
    from "2.IH"(1)[OF nl False e] have d: "utf8_decode bs' = Some cs" .
    have r: "unat c < 0xD800 \<or> (0xE000 \<le> unat c \<and> unat c \<le> 0x10FFFF)"
      using False nl unit_bound[of c] by (auto simp: is_high_surrogate_def is_low_surrogate_def)
    have "unat c < 0x10000" using unit_bound[of c] by simp
    then show ?thesis
      unfolding bs by (simp only: decode_octets[OF r] d units_single) simp
  next
    case True
    with "2.prems" have nl: "\<not> is_low_surrogate c" by (auto split: if_splits)
    from True nl "2.prems" obtain k ks where cs: "cs = k # ks"
      by (cases cs) auto
    from True nl "2.prems" cs have lk: "is_low_surrogate k" by (auto split: if_splits)
    from True nl "2.prems" cs lk obtain bs' where e: "utf8_encode ks = Some bs'"
      and bs: "bs = utf8_octets ((unat c - 0xD800) * 0x400 + (unat k - 0xDC00) + 0x10000) @ bs'"
      by auto
    have hs: "\<not> \<not> is_high_surrogate c" using True by simp
    have ls: "\<not> \<not> is_low_surrogate k" using lk by simp
    from "2.IH"(2)[OF nl hs cs ls e] have d: "utf8_decode bs' = Some ks" .
    from True lk have b: "0xD800 \<le> unat c" "unat c \<le> 0xDBFF" "0xDC00 \<le> unat k" "unat k \<le> 0xDFFF"
      by (simp_all add: is_high_surrogate_def is_low_surrogate_def)
    note pv = pair_value[OF b]
    have r: "(unat c - 0xD800) * 0x400 + (unat k - 0xDC00) + 0x10000 < 0xD800
        \<or> (0xE000 \<le> (unat c - 0xD800) * 0x400 + (unat k - 0xDC00) + 0x10000
           \<and> (unat c - 0xD800) * 0x400 + (unat k - 0xDC00) + 0x10000 \<le> 0x10FFFF)"
      using pv(1,2) by linarith
    show ?thesis
      unfolding bs cs by (simp only: decode_octets[OF r] d units_pair[OF True lk]) simp
  qed
qed

lemma well_formed_encode: "is_well_formed s \<longleftrightarrow> utf8_encode s \<noteq> None"
  by (induction s rule: utf8_encode.induct) (auto split: list.splits)

section \<open>UTF-8: encoding undoes decoding\<close>

lemma join2:
  fixes x y :: nat
  assumes "y < 64"
  shows "(x * 64 + y) div 64 = x" "(x * 64 + y) mod 64 = y"
  using assms by simp_all

lemma join3:
  fixes x y z :: nat
  assumes "y < 64" "z < 64"
  shows "(x * 4096 + y * 64 + z) div 4096 = x" "(x * 4096 + y * 64 + z) div 64 mod 64 = y"
    "(x * 4096 + y * 64 + z) mod 64 = z"
proof -
  have e: "x * 4096 + y * 64 + z = (x * 64 + y) * 64 + z" by simp
  have d: "((x * 64 + y) * 64 + z) div 64 = x * 64 + y"
    by (rule join2(1)[OF assms(2)])
  have m: "((x * 64 + y) * 64 + z) mod 64 = z"
    by (rule join2(2)[OF assms(2)])
  show "(x * 4096 + y * 64 + z) mod 64 = z" using m by (simp only: e)
  show "(x * 4096 + y * 64 + z) div 64 mod 64 = y"
    by (simp only: e d join2(2)[OF assms(1)])
  have "((x * 64 + y) * 64 + z) div (64 * 64) = ((x * 64 + y) * 64 + z) div 64 div 64"
    by (rule div_mult2_eq)
  then have "((x * 64 + y) * 64 + z) div 4096 = x"
    by (simp only: d join2(1)[OF assms(1)]) simp
  then show "(x * 4096 + y * 64 + z) div 4096 = x" by (simp only: e)
qed

lemma join4:
  fixes w x y z :: nat
  assumes "x < 64" "y < 64" "z < 64"
  shows "(w * 262144 + x * 4096 + y * 64 + z) div 262144 = w"
    "(w * 262144 + x * 4096 + y * 64 + z) div 4096 mod 64 = x"
    "(w * 262144 + x * 4096 + y * 64 + z) div 64 mod 64 = y"
    "(w * 262144 + x * 4096 + y * 64 + z) mod 64 = z"
proof -
  have e: "w * 262144 + x * 4096 + y * 64 + z = (w * 64 + x) * 4096 + y * 64 + z" by simp
  note j = join3[OF assms(2,3), of "w * 64 + x"]
  show "(w * 262144 + x * 4096 + y * 64 + z) mod 64 = z" by (simp only: e j)
  show "(w * 262144 + x * 4096 + y * 64 + z) div 64 mod 64 = y" by (simp only: e j)
  show "(w * 262144 + x * 4096 + y * 64 + z) div 4096 mod 64 = x"
    by (simp only: e j join2(2)[OF assms(1)])
  have "((w * 64 + x) * 4096 + y * 64 + z) div (4096 * 64)
        = ((w * 64 + x) * 4096 + y * 64 + z) div 4096 div 64"
    by (rule div_mult2_eq)
  then have "((w * 64 + x) * 4096 + y * 64 + z) div 262144 = w"
    by (simp only: j join2(1)[OF assms(1)]) simp
  then show "(w * 262144 + x * 4096 + y * 64 + z) div 262144 = w" by (simp only: e)
qed

lemma octets_2:
  assumes "\<not> unat b < 0xC0" "unat b < 0xE0" "is_continuation b1"
    and v: "v = (unat b - 0xC0) * 64 + (unat b1 - 0x80)" and "\<not> v < 0x80"
  shows "utf8_octets v = [b, b1]" "v < 0xD800"
proof -
  have y: "unat b1 - 0x80 < 64" "0x80 \<le> unat b1"
    using assms(3) unfolding is_continuation_def by arith+
  have x: "unat b - 0xC0 < 32" using assms(2) by arith
  have lt: "v < 0x800" unfolding v using x y(1) by simp
  then show "v < 0xD800" by simp
  have d: "v div 64 = unat b - 0xC0" "v mod 64 = unat b1 - 0x80"
    unfolding v using join2[OF y(1)] by simp_all
  have b: "0xC0 + (unat b - 0xC0) = unat b" using assms(1) by simp
  have b1: "0x80 + (unat b1 - 0x80) = unat b1" using y(2) by simp
  show "utf8_octets v = [b, b1]"
    unfolding utf8_octets_def using lt assms(5)
    by (simp only: d b b1 byte_of_nat_unat if_False if_True)
qed

lemma octets_3:
  assumes "\<not> unat b < 0xE0" "unat b < 0xF0" "is_continuation b1" "is_continuation b2"
    and v: "v = (unat b - 0xE0) * 4096 + (unat b1 - 0x80) * 64 + (unat b2 - 0x80)"
    and "\<not> v < 0x800"
  shows "utf8_octets v = [b, b1, b2]" "v < 0x10000"
proof -
  have y: "unat b1 - 0x80 < 64" "0x80 \<le> unat b1"
    using assms(3) unfolding is_continuation_def by arith+
  have z: "unat b2 - 0x80 < 64" "0x80 \<le> unat b2"
    using assms(4) unfolding is_continuation_def by arith+
  have x: "unat b - 0xE0 < 16" using assms(2) by arith
  show lt: "v < 0x10000" unfolding v using x y(1) z(1) by simp
  have d: "v div 4096 = unat b - 0xE0" "v div 64 mod 64 = unat b1 - 0x80"
    "v mod 64 = unat b2 - 0x80"
    unfolding v using join3[OF y(1) z(1)] by simp_all
  have b: "0xE0 + (unat b - 0xE0) = unat b" using assms(1) by simp
  have b1: "0x80 + (unat b1 - 0x80) = unat b1" using y(2) by simp
  have b2: "0x80 + (unat b2 - 0x80) = unat b2" using z(2) by simp
  have n: "\<not> v < 0x80" using assms(6) by simp
  show "utf8_octets v = [b, b1, b2]"
    unfolding utf8_octets_def using lt assms(6) n
    by (simp only: d b b1 b2 byte_of_nat_unat if_False if_True)
qed

lemma octets_4:
  assumes "\<not> unat b < 0xF0" "is_continuation b1" "is_continuation b2" "is_continuation b3"
    and v: "v = (unat b - 0xF0) * 262144 + (unat b1 - 0x80) * 4096
                + (unat b2 - 0x80) * 64 + (unat b3 - 0x80)"
    and "\<not> v < 0x10000"
  shows "utf8_octets v = [b, b1, b2, b3]"
proof -
  have x: "unat b1 - 0x80 < 64" "0x80 \<le> unat b1"
    using assms(2) unfolding is_continuation_def by arith+
  have y: "unat b2 - 0x80 < 64" "0x80 \<le> unat b2"
    using assms(3) unfolding is_continuation_def by arith+
  have z: "unat b3 - 0x80 < 64" "0x80 \<le> unat b3"
    using assms(4) unfolding is_continuation_def by arith+
  have d: "v div 262144 = unat b - 0xF0" "v div 4096 mod 64 = unat b1 - 0x80"
    "v div 64 mod 64 = unat b2 - 0x80" "v mod 64 = unat b3 - 0x80"
    unfolding v using join4[OF x(1) y(1) z(1)] by simp_all
  have b: "0xF0 + (unat b - 0xF0) = unat b" using assms(1) by simp
  have b1: "0x80 + (unat b1 - 0x80) = unat b1" using x(2) by simp
  have b2: "0x80 + (unat b2 - 0x80) = unat b2" using y(2) by simp
  have b3: "0x80 + (unat b3 - 0x80) = unat b3" using z(2) by simp
  have n: "\<not> v < 0x80" "\<not> v < 0x800" using assms(6) by simp_all
  show "utf8_octets v = [b, b1, b2, b3]"
    unfolding utf8_octets_def using assms(6) n
    by (simp only: d b b1 b2 b3 byte_of_nat_unat if_False if_True)
qed


lemma encode_units_1:
  assumes "v < 0xD800 \<or> (0xE000 \<le> v \<and> v < 0x10000)"
  shows "utf8_encode (utf16_units v @ s) = map_option (\<lambda>bs. utf8_octets v @ bs) (utf8_encode s)"
proof -
  have lt: "v < 0x10000" using assms by linarith
  have u: "unat (unit_of_nat v) = v" using lt by (simp add: unat_unit_of_nat)
  have nl: "\<not> is_low_surrogate (unit_of_nat v)"
    unfolding is_low_surrogate_def u using assms by linarith
  have nh: "\<not> is_high_surrogate (unit_of_nat v)"
    unfolding is_high_surrogate_def u using assms by linarith
  have un: "utf16_units v = [unit_of_nat v]" using lt by (simp add: utf16_units_def)
  show ?thesis
    unfolding un by (simp only: append_Cons append_Nil utf8_encode.simps nl nh u if_False if_True
        not_False_eq_True)
qed

lemma encode_units_2:
  assumes "0x10000 \<le> v" "v \<le> 0x10FFFF"
  shows "utf8_encode (utf16_units v @ s) = map_option (\<lambda>bs. utf8_octets v @ bs) (utf8_encode s)"
proof -
  define q where "q = (v - 0x10000) div 0x400"
  define r where "r = (v - 0x10000) mod 0x400"
  have q: "q < 0x400" unfolding q_def using assms by simp
  have r: "r < 0x400" unfolding r_def by simp
  have v: "q * 0x400 + r + 0x10000 = v"
    unfolding q_def r_def using assms(1) div_mult_mod_eq[of "v - 0x10000" "0x400"] by linarith
  have uh: "unat (unit_of_nat (0xD800 + q)) = 0xD800 + q" using q by (simp add: unat_unit_of_nat)
  have ul: "unat (unit_of_nat (0xDC00 + r)) = 0xDC00 + r" using r by (simp add: unat_unit_of_nat)
  have h: "is_high_surrogate (unit_of_nat (0xD800 + q))"
    unfolding is_high_surrogate_def uh using q by simp
  have nl: "\<not> is_low_surrogate (unit_of_nat (0xD800 + q))"
    unfolding is_low_surrogate_def uh using q by simp
  have l: "is_low_surrogate (unit_of_nat (0xDC00 + r))"
    unfolding is_low_surrogate_def ul using r by simp
  have un: "utf16_units v = [unit_of_nat (0xD800 + q), unit_of_nat (0xDC00 + r)]"
    unfolding q_def r_def using assms(1) by (simp add: utf16_units_def)
  have e: "(0xD800 + q - 0xD800) * 0x400 + (0xDC00 + r - 0xDC00) + 0x10000 = v"
    using v by simp
  show ?thesis
    unfolding un
    by (simp only: append_Cons append_Nil utf8_encode.simps nl h l uh ul e if_False if_True
        not_False_eq_True not_True_eq_False list.case)
qed

lemma encode_units:
  assumes "v < 0xD800 \<or> (0xE000 \<le> v \<and> v \<le> 0x10FFFF)"
  shows "utf8_encode (utf16_units v @ s) = map_option (\<lambda>bs. utf8_octets v @ bs) (utf8_encode s)"
proof (cases "v < 0x10000")
  case True
  with assms have "v < 0xD800 \<or> (0xE000 \<le> v \<and> v < 0x10000)" by linarith
  then show ?thesis by (rule encode_units_1)
next
  case False
  with assms have "0x10000 \<le> v" "v \<le> 0x10FFFF" by linarith+
  then show ?thesis by (rule encode_units_2)
qed

lemma decode_step:
  assumes "utf8_decode (b # bs) = Some s"
  shows "\<exists>v rest s'. b # bs = utf8_octets v @ rest
           \<and> (v < 0xD800 \<or> (0xE000 \<le> v \<and> v \<le> 0x10FFFF))
           \<and> utf8_decode rest = Some s' \<and> s = utf16_units v @ s'
           \<and> length rest < length (b # bs)"
proof -
  consider (a) "unat b < 0x80" | (b) "\<not> unat b < 0x80" "unat b < 0xC0"
    | (c) "\<not> unat b < 0xC0" "unat b < 0xE0" | (d) "\<not> unat b < 0xE0" "unat b < 0xF0"
    | (e) "\<not> unat b < 0xF0" "unat b < 0xF8" | (f) "\<not> unat b < 0xF8"
    by linarith
  then show ?thesis
  proof cases
    case a
    with assms obtain s' where d: "utf8_decode bs = Some s'" and s: "s = unit_of_nat (unat b) # s'"
      by auto
    have o: "utf8_octets (unat b) = [b]" using a by (simp add: utf8_octets_def)
    have u: "utf16_units (unat b) = [unit_of_nat (unat b)]"
      using a by (simp add: utf16_units_def del: unit_of_nat_unat)
    show ?thesis
      apply (rule exI[of _ "unat b"], rule exI[of _ bs], rule exI[of _ s'])
      using a d s by (simp add: o u del: unit_of_nat_unat)
  next
    case b
    with assms show ?thesis by simp
  next
    case c
    then have n: "\<not> unat b < 0x80" by simp
    from assms n c obtain b1 rest where bs: "bs = b1 # rest"
      by (cases bs) auto
    define v where "v = (unat b - 0xC0) * 64 + (unat b1 - 0x80)"
    from assms n c bs have g: "is_continuation b1" "\<not> v < 0x80"
      by (auto simp: Let_def v_def split: if_splits)
    from assms n c bs g obtain s' where d: "utf8_decode rest = Some s'"
      and s: "s = utf16_units v @ s'"
      by (auto simp: Let_def v_def split: if_splits)
    note o = octets_2[OF c g(1) v_def g(2)]
    show ?thesis
      apply (rule exI[of _ v], rule exI[of _ rest], rule exI[of _ s'])
      using d s o bs by simp
  next
    case d
    then have n: "\<not> unat b < 0x80" "\<not> unat b < 0xC0" by simp_all
    from assms n d obtain b1 b2 rest where bs: "bs = b1 # b2 # rest"
      by (cases bs; cases "tl bs") auto
    define v where "v = (unat b - 0xE0) * 4096 + (unat b1 - 0x80) * 64 + (unat b2 - 0x80)"
    from assms n d bs have g: "is_continuation b1" "is_continuation b2" "\<not> v < 0x800"
      "\<not> (0xD800 \<le> v \<and> v \<le> 0xDFFF)"
      by (auto simp: Let_def v_def split: if_splits)
    from assms n d bs g obtain s' where dd: "utf8_decode rest = Some s'"
      and s: "s = utf16_units v @ s'"
      by (auto simp: Let_def v_def split: if_splits)
    note o = octets_3[OF d g(1,2) v_def g(3)]
    have r: "v < 0xD800 \<or> (0xE000 \<le> v \<and> v \<le> 0x10FFFF)" using o(2) g(4) by linarith
    show ?thesis
      apply (rule exI[of _ v], rule exI[of _ rest], rule exI[of _ s'])
      using dd s o(1) bs r by simp
  next
    case e
    then have n: "\<not> unat b < 0x80" "\<not> unat b < 0xC0" "\<not> unat b < 0xE0" by simp_all
    from assms n e obtain b1 b2 b3 rest where bs: "bs = b1 # b2 # b3 # rest"
      by (cases bs; cases "tl bs"; cases "tl (tl bs)") auto
    define v where "v = (unat b - 0xF0) * 262144 + (unat b1 - 0x80) * 4096
                + (unat b2 - 0x80) * 64 + (unat b3 - 0x80)"
    from assms n e bs have g: "is_continuation b1" "is_continuation b2" "is_continuation b3"
      "\<not> v < 0x10000" "\<not> v > 0x10FFFF"
      by (auto simp: Let_def v_def split: if_splits)
    from assms n e bs g obtain s' where dd: "utf8_decode rest = Some s'"
      and s: "s = utf16_units v @ s'"
      by (auto simp: Let_def v_def split: if_splits)
    note o = octets_4[OF e(1) g(1,2,3) v_def g(4)]
    have r: "v < 0xD800 \<or> (0xE000 \<le> v \<and> v \<le> 0x10FFFF)" using g(4,5) by linarith
    show ?thesis
      apply (rule exI[of _ v], rule exI[of _ rest], rule exI[of _ s'])
      using dd s o bs r by simp
  next
    case f
    with assms show ?thesis by simp
  qed
qed

lemma encode_decode_utf8: "utf8_decode bs = Some s \<Longrightarrow> utf8_encode s = Some bs"
proof (induction bs arbitrary: s rule: length_induct)
  case (1 bs)
  show ?case
  proof (cases bs)
    case Nil
    with "1.prems" show ?thesis by simp
  next
    case (Cons b bs')
    with "1.prems" have "utf8_decode (b # bs') = Some s" by simp
    from decode_step[OF this] obtain v rest s' where
      st: "b # bs' = utf8_octets v @ rest" "v < 0xD800 \<or> (0xE000 \<le> v \<and> v \<le> 0x10FFFF)"
        "utf8_decode rest = Some s'" "s = utf16_units v @ s'" "length rest < length (b # bs')"
      by blast
    from "1.IH" st(5) st(3) Cons have "utf8_encode s' = Some rest" by simp
    then show ?thesis
      unfolding st(4) Cons st(1) by (simp only: encode_units[OF st(2)]) simp
  qed
qed

section \<open>Facts shared by the claims\<close>

lemma decodeBase64_encodeBase64: "decodeBase64 (encodeBase64 bs) = Inr bs"
  by (simp add: decodeBase64_def encodeBase64_def validate_encode decode_encode)


lemma decodeUTF8_well_formed:
  "is_well_formed P \<Longrightarrow> \<exists>m. decodeUTF8 P = Inr m \<and> encodeUTF8 (Some m) = Inr P"
  by (auto simp: decodeUTF8_def encodeUTF8_def well_formed_encode decode_encode_utf8)

lemma length_randomBytes: "length (fst (randomBytes n r)) = n"
  by (simp add: randomBytes_def)


lemma generateKeyPair_fields:
  "publicKey (fst (generateKeyPair core r))
     = encodeBase64 (crypto_scalarmult_base core (fst (randomBytes 32 r)))"
  "privateKey (fst (generateKeyPair core r)) = encodeBase64 (fst (randomBytes 32 r))"
  by (simp_all add: generateKeyPair_def nacl_box_keyPair_def split_beta)

lemma nacl_box_open_box:
  assumes "core_correct core" "length a = 32" "length b = 32" "length n = 24"
  shows "\<exists>c. nacl_box core m n (crypto_scalarmult_base core b) a = Inr c
           \<and> nacl_box_open core c n (crypto_scalarmult_base core a) b = Inr (Some m)"
proof -
  from assms(1) have ks: "\<And>sk. length sk = 32 \<Longrightarrow> length (crypto_scalarmult_base core sk) = 32"
    and bl: "\<And>pk sk. length pk = 32 \<Longrightarrow> length sk = 32
               \<Longrightarrow> length (crypto_box_beforenm core pk sk) = 32"
    and dh: "\<And>a b. length a = 32 \<Longrightarrow> length b = 32 \<Longrightarrow>
               crypto_box_beforenm core (crypto_scalarmult_base core b) a
               = crypto_box_beforenm core (crypto_scalarmult_base core a) b"
    and sb: "\<And>m n k. length n = 24 \<Longrightarrow> length k = 32 \<Longrightarrow>
               length (crypto_secretbox core m n k) = length m + 16 \<and>
               crypto_secretbox_open core (crypto_secretbox core m n k) n k = Some m"
    unfolding core_correct_def core_key_sizes_def by blast+
  define k where "k = crypto_box_beforenm core (crypto_scalarmult_base core b) a"
  have k': "crypto_box_beforenm core (crypto_scalarmult_base core a) b = k"
    unfolding k_def using dh[OF assms(2,3)] by simp
  have lk: "length k = 32" unfolding k_def using bl[OF ks[OF assms(3)] assms(2)] .
  have 1: "nacl_box core m n (crypto_scalarmult_base core b) a = Inr (crypto_secretbox core m n k)"
    using ks[OF assms(3)] assms(2,4) lk
    by (simp add: nacl_box_def nacl_box_before_def checkBoxLengths_def nacl_secretbox_def
        checkLengths_def k_def)
  have 2: "nacl_box_open core (crypto_secretbox core m n k) n (crypto_scalarmult_base core a) b
           = Inr (Some m)"
    using ks[OF assms(2)] assms(3,4) lk sb[OF assms(4) lk, of m]
    by (simp add: nacl_box_open_def nacl_box_before_def checkBoxLengths_def
        nacl_secretbox_open_def checkLengths_def k')
  from 1 2 show ?thesis by blast
qed

lemma toy_stream_twice: "toy_stream k n (toy_stream k n m) = m"
  by (induction m) (simp_all add: toy_stream_def xor.assoc)

lemma length_toy_stream: "length (toy_stream k n m) = length m"
  by (simp add: toy_stream_def)

lemma length_toy_mac: "length (toy_mac k n body) = 16"
  by (simp add: toy_mac_def)

lemma toy_dh: "length a = length b \<Longrightarrow>
  map2 (*) (map (\<lambda>x. 3 * x) b) a = map2 (*) (map (\<lambda>x. 3 * x) a) (b :: bytes)"
  by (induction a b rule: list_induct2) (simp_all add: mult.commute mult.left_commute)

lemma toy_core_correct: "core_correct toy_core"
  unfolding core_correct_def core_key_sizes_def
  by (simp add: toy_core_def length_toy_mac toy_stream_twice toy_dh length_toy_stream)

lemma toy_aead_correct: "aead_correct toy_aead"
  unfolding aead_correct_def
  by (simp add: toy_aead_def length_toy_mac toy_stream_twice)

section \<open>Asymmetric round trip\<close>

text \<open>
  C1. A well-formed plaintext encrypted by A for B (B's public key, A's private key),
  with both key pairs from \<^const>\<open>generateKeyPair\<close>, is encrypted without error, and
  decrypting the returned ciphertext and nonce with A's public key and B's private key
  returns exactly the plaintext. The core is any one that is correct.
\<close>

theorem asymmetric_round_trip:
  assumes "core_correct core" and "is_well_formed P"
  shows "\<exists>ct. fst (encryptAsymmetric core P (publicKey (fst (generateKeyPair core rB)))
                   (privateKey (fst (generateKeyPair core rA))) r) = Inr ct
           \<and> decryptAsymmetric core (ciphertext ct) (nonce ct)
                (publicKey (fst (generateKeyPair core rA)))
                (privateKey (fst (generateKeyPair core rB))) = Inr P"
proof -
  define a where "a = fst (randomBytes 32 rA)"
  define b where "b = fst (randomBytes 32 rB)"
  define n where "n = fst (randomBytes 24 r)"
  have la: "length a = 32" and lb: "length b = 32" and ln: "length n = 24"
    by (simp_all add: a_def b_def n_def length_randomBytes)
  from decodeUTF8_well_formed[OF assms(2)] obtain m where
    m: "decodeUTF8 P = Inr m" "encodeUTF8 (Some m) = Inr P" by blast
  from nacl_box_open_box[OF assms(1) la lb ln, of m] obtain c where
    c: "nacl_box core m n (crypto_scalarmult_base core b) a = Inr c"
       "nacl_box_open core c n (crypto_scalarmult_base core a) b = Inr (Some m)" by blast
  have enc: "fst (encryptAsymmetric core P (publicKey (fst (generateKeyPair core rB)))
                   (privateKey (fst (generateKeyPair core rA))) r)
             = Inr \<lparr>ciphertext = encodeBase64 c, nonce = encodeBase64 n\<rparr>"
    by (simp add: encryptAsymmetric_def generateKeyPair_fields split_beta m(1)
        decodeBase64_encodeBase64 a_def[symmetric] b_def[symmetric] n_def[symmetric] c(1))
  have dec: "decryptAsymmetric core (encodeBase64 c) (encodeBase64 n)
                (publicKey (fst (generateKeyPair core rA)))
                (privateKey (fst (generateKeyPair core rB))) = Inr P"
    by (simp add: decryptAsymmetric_def generateKeyPair_fields decodeBase64_encodeBase64
        a_def[symmetric] b_def[symmetric] c(2) m(2))
  from enc dec show ?thesis by simp
qed

theorem asymmetric_round_trip_witness:
  "is_well_formed [104, 105] \<and>
   (\<exists>ct. fst (encryptAsymmetric toy_core [104, 105]
                   (publicKey (fst (generateKeyPair toy_core (counter_rng 100))))
                   (privateKey (fst (generateKeyPair toy_core (counter_rng 1))))
                   (counter_rng 50)) = Inr ct
           \<and> decryptAsymmetric toy_core (ciphertext ct) (nonce ct)
                (publicKey (fst (generateKeyPair toy_core (counter_rng 1))))
                (privateKey (fst (generateKeyPair toy_core (counter_rng 100)))) = Inr [104, 105])"
proof -
  have wf: "is_well_formed [104, 105]"
    by (simp add: is_low_surrogate_def is_high_surrogate_def)
  show ?thesis
    using wf asymmetric_round_trip[OF toy_core_correct wf, of "counter_rng 100" "counter_rng 1"
        "counter_rng 50"]
    by simp
qed

section \<open>A worked run\<close>

text \<open>
  Alice's key pair is drawn from \<open>counter_rng 1\<close> and Bob's from \<open>counter_rng 100\<close>, both
  with the small core; the nonce is drawn from \<open>counter_rng 50\<close>. The facts below are the
  single steps of the runs that the concrete theorems put together.
\<close>

lemma run_alice_public:
  "decodeBase64 ''AwYJDA8SFRgbHiEkJyotMDM2OTw/QkVIS05RVFdaXWA='' =
     Inr [3, 6, 9, 12, 15, 18, 21, 24, 27, 30, 33, 36, 39, 42, 45, 48, 51, 54, 57, 60, 63, 66,
          69, 72, 75, 78, 81, 84, 87, 90, 93, 96]"
  by code_simp



lemma run_bob_private:
  "decodeBase64 ''ZGVmZ2hpamtsbW5vcHFyc3R1dnd4eXp7fH1+f4CBgoM='' =
     Inr [100, 101, 102, 103, 104, 105, 106, 107, 108, 109, 110, 111, 112, 113, 114, 115,
          116, 117, 118, 119, 120, 121, 122, 123, 124, 125, 126, 127, 128, 129, 130, 131]"
  by code_simp


lemma run_nonce:
  "decodeBase64 ''MjM0NTY3ODk6Ozw9Pj9AQUJDREVGR0hJ'' =
     Inr [50, 51, 52, 53, 54, 55, 56, 57, 58, 59, 60, 61, 62, 63, 64, 65, 66, 67, 68, 69, 70,
          71, 72, 73]"
  by code_simp


lemma run_hi_bytes: "decodeUTF8 [104, 105] = Inr [104, 105]"
  by (simp add: decodeUTF8_def is_low_surrogate_def is_high_surrogate_def utf8_octets_def
      byte_of_nat_def)




section \<open>Key pairs\<close>

text \<open>
  C6. Both fields of a key pair from \<^const>\<open>generateKeyPair\<close> pass the base64 validation
  and decode to exactly 32 bytes, for every core whose public keys have 32 bytes.
\<close>

theorem generateKeyPair_base64_32:
  assumes "core_key_sizes core"
  shows "validateBase64 (publicKey (fst (generateKeyPair core r)))
         \<and> validateBase64 (privateKey (fst (generateKeyPair core r)))
         \<and> (\<exists>pk sk. decodeBase64 (publicKey (fst (generateKeyPair core r))) = Inr pk
                \<and> length pk = 32
                \<and> decodeBase64 (privateKey (fst (generateKeyPair core r))) = Inr sk
                \<and> length sk = 32)"
proof -
  have l: "length (fst (randomBytes 32 r)) = 32" by (rule length_randomBytes)
  with assms have "length (crypto_scalarmult_base core (fst (randomBytes 32 r))) = 32"
    unfolding core_key_sizes_def by blast
  with l show ?thesis
    by (simp add: generateKeyPair_fields decodeBase64_encodeBase64)
       (simp add: encodeBase64_def validate_encode)
qed

theorem generateKeyPair_base64_32_witness:
  "validateBase64 (publicKey (fst (generateKeyPair toy_core (counter_rng 1))))
   \<and> validateBase64 (privateKey (fst (generateKeyPair toy_core (counter_rng 1))))
   \<and> (\<exists>pk sk. decodeBase64 (publicKey (fst (generateKeyPair toy_core (counter_rng 1)))) = Inr pk
          \<and> length pk = 32
          \<and> decodeBase64 (privateKey (fst (generateKeyPair toy_core (counter_rng 1)))) = Inr sk
          \<and> length sk = 32)"
proof -
  have "core_key_sizes toy_core" using toy_core_correct by (simp add: core_correct_def)
  then show ?thesis by (rule generateKeyPair_base64_32)
qed

section \<open>The nonce\<close>



section \<open>The symmetric functions\<close>

lemma validateBase64_encodeBase64: "validateBase64 (encodeBase64 bs)"
  by (simp add: encodeBase64_def validate_encode)

lemma b64_decode_encodeBase64: "b64_decode (encodeBase64 bs) = bs"
  by (simp add: encodeBase64_def decode_encode)

text \<open>
  C10. \<^const>\<open>encryptSymmetric\<close> returns what \<^verbatim>\<open>AesGCM.encrypt\<close> returns, an error as it
  is and an object cut down to its fields \<^verbatim>\<open>ciphertext\<close>, \<^verbatim>\<open>iv\<close> and \<^verbatim>\<open>tag\<close> (so
  unchanged when it has no others), and leaves the random source as \<^verbatim>\<open>AesGCM.encrypt\<close>
  left it; \<^const>\<open>decryptSymmetric\<close> returns what \<^verbatim>\<open>AesGCM.decrypt\<close> returns. Nothing is
  validated, transformed or mapped to another error on the way.
\<close>

theorem symmetric_pass_through:
  fixes aes :: "'z AesGCM" and aes0 :: "unit AesGCM"
  shows "encryptSymmetric aes P K r
           = apfst (map_sum id symmetric_ciphertext.truncate) (AesGCM_encrypt aes P K r)
         \<and> encryptSymmetric aes0 P K r = AesGCM_encrypt aes0 P K r
         \<and> decryptSymmetric aes c v t K = AesGCM_decrypt aes c v t K"
proof -
  have 1: "encryptSymmetric aes P K r
           = apfst (map_sum id symmetric_ciphertext.truncate) (AesGCM_encrypt aes P K r)"
    by (cases "AesGCM_encrypt aes P K r"; cases "fst (AesGCM_encrypt aes P K r)")
       (simp_all add: encryptSymmetric_def symmetric_ciphertext.truncate_def)
  have 2: "encryptSymmetric aes0 P K r = AesGCM_encrypt aes0 P K r"
    by (cases "AesGCM_encrypt aes0 P K r"; cases "fst (AesGCM_encrypt aes0 P K r)")
       (simp_all add: encryptSymmetric_def)
  have 3: "decryptSymmetric aes c v t K = AesGCM_decrypt aes c v t K"
    by (cases "AesGCM_decrypt aes c v t K") (simp_all add: decryptSymmetric_def)
  from 1 2 3 show ?thesis by blast
qed

text \<open>
  C2. With the symmetric primitive as the specification describes it, over any correct
  cipher: a well-formed plaintext and a hex key of the cipher's key size are encrypted
  without error, and decrypting the returned ciphertext, IV and tag under the same key
  returns exactly the plaintext.
\<close>

theorem symmetric_round_trip:
  assumes "aead_correct A" and "is_well_formed P"
    and "hex_decode K = Some k" and "length k = aead_key_size A"
  shows "\<exists>ct. fst (encryptSymmetric (SymmetricCipher A) P K r) = Inr ct
           \<and> decryptSymmetric (SymmetricCipher A) (ciphertext ct) (iv ct) (tag ct) K = Inr P"
proof -
  define v where "v = fst (randomBytes (aead_iv_size A) r)"
  have lv: "length v = aead_iv_size A" by (simp add: v_def length_randomBytes)
  from assms(2) obtain m where m: "utf8_encode P = Some m" "utf8_decode m = Some P"
    using well_formed_encode decode_encode_utf8 by blast
  define c where "c = fst (aead_seal A k v m)"
  define t where "t = snd (aead_seal A k v m)"
  from assms(1) assms(4) lv have ok: "length t = aead_tag_size A" "aead_open A k v c t = Some m"
    unfolding aead_correct_def c_def t_def by blast+
  have enc: "fst (encryptSymmetric (SymmetricCipher A) P K r)
             = Inr \<lparr>ciphertext = encodeBase64 c, iv = encodeBase64 v, tag = encodeBase64 t\<rparr>"
    using assms(3,4) m(1)
    by (simp add: encryptSymmetric_def SymmetricCipher_def SymmetricCipher_encrypt_def
        split_beta v_def[symmetric] c_def[symmetric] t_def[symmetric])
  have dec: "decryptSymmetric (SymmetricCipher A) (encodeBase64 c) (encodeBase64 v)
               (encodeBase64 t) K = Inr P"
    using assms(3,4) lv ok m(2)
    by (simp add: decryptSymmetric_def SymmetricCipher_def SymmetricCipher_decrypt_def
        validateBase64_encodeBase64 b64_decode_encodeBase64)
  from enc dec show ?thesis by simp
qed

lemma run_key:
  "hex_decode ''000102030405060708090a0b0c0d0e0f101112131415161718191A1B1C1D1E1F'' =
     Some [0, 1, 2, 3, 4, 5, 6, 7, 8, 9, 10, 11, 12, 13, 14, 15, 16, 17, 18, 19, 20, 21, 22,
           23, 24, 25, 26, 27, 28, 29, 30, 31]"
  by code_simp

lemma well_formed_hi: "is_well_formed [104, 105]"
  by (simp add: is_low_surrogate_def is_high_surrogate_def)

theorem symmetric_round_trip_witness:
  "is_well_formed [104, 105]
   \<and> hex_decode ''000102030405060708090a0b0c0d0e0f101112131415161718191A1B1C1D1E1F'' =
     Some [0, 1, 2, 3, 4, 5, 6, 7, 8, 9, 10, 11, 12, 13, 14, 15, 16, 17, 18, 19, 20, 21, 22,
           23, 24, 25, 26, 27, 28, 29, 30, 31]
   \<and> (\<exists>ct. fst (encryptSymmetric (SymmetricCipher toy_aead) [104, 105]
                ''000102030405060708090a0b0c0d0e0f101112131415161718191A1B1C1D1E1F''
                (counter_rng 50)) = Inr ct
           \<and> decryptSymmetric (SymmetricCipher toy_aead) (ciphertext ct) (iv ct) (tag ct)
                ''000102030405060708090a0b0c0d0e0f101112131415161718191A1B1C1D1E1F''
              = Inr [104, 105])"
proof -
  have l: "length [0, 1, 2, 3, 4, 5, 6, 7, 8, 9, 10, 11, 12, 13, 14, 15, 16, 17, 18, 19, 20,
      21, 22, 23, 24, 25, 26, 27, 28, 29, 30, 31 :: byte] = aead_key_size toy_aead"
    by (simp add: toy_aead_def)
  from symmetric_round_trip[OF toy_aead_correct well_formed_hi run_key l, of "counter_rng 50"]
    well_formed_hi run_key
  show ?thesis by blast
qed

section \<open>Draws from the random source\<close>









section \<open>Decrypting what does not verify\<close>

lemma run_tampered:
  "decodeBase64 ''1tbW1tbW1tbW1tbW1tbW1gwO'' =
     Inr [214, 214, 214, 214, 214, 214, 214, 214, 214, 214, 214, 214, 214, 214, 214, 214,
          12, 14]"
  by code_simp

lemma run_hi_sealed:
  "decodeBase64 ''1tbW1tbW1tbW1tbW1tbW1gwN'' =
     Inr [214, 214, 214, 214, 214, 214, 214, 214, 214, 214, 214, 214, 214, 214, 214, 214,
          12, 13]"
  by code_simp

lemma run_open_tampered:
  "nacl_box_open toy_core
     [214, 214, 214, 214, 214, 214, 214, 214, 214, 214, 214, 214, 214, 214, 214, 214, 12, 14]
     [50, 51, 52, 53, 54, 55, 56, 57, 58, 59, 60, 61, 62, 63, 64, 65, 66, 67, 68, 69, 70, 71,
      72, 73]
     [3, 6, 9, 12, 15, 18, 21, 24, 27, 30, 33, 36, 39, 42, 45, 48, 51, 54, 57, 60, 63, 66,
      69, 72, 75, 78, 81, 84, 87, 90, 93, 96]
     [100, 101, 102, 103, 104, 105, 106, 107, 108, 109, 110, 111, 112, 113, 114, 115,
      116, 117, 118, 119, 120, 121, 122, 123, 124, 125, 126, 127, 128, 129, 130, 131]
   = Inr None"
  by code_simp

lemma run_open_hi:
  "nacl_box_open toy_core
     [214, 214, 214, 214, 214, 214, 214, 214, 214, 214, 214, 214, 214, 214, 214, 214, 12, 13]
     [50, 51, 52, 53, 54, 55, 56, 57, 58, 59, 60, 61, 62, 63, 64, 65, 66, 67, 68, 69, 70, 71,
      72, 73]
     [3, 6, 9, 12, 15, 18, 21, 24, 27, 30, 33, 36, 39, 42, 45, 48, 51, 54, 57, 60, 63, 66,
      69, 72, 75, 78, 81, 84, 87, 90, 93, 96]
     [100, 101, 102, 103, 104, 105, 106, 107, 108, 109, 110, 111, 112, 113, 114, 115,
      116, 117, 118, 119, 120, 121, 122, 123, 124, 125, 126, 127, 128, 129, 130, 131]
   = Inr (Some [104, 105])"
  by code_simp

lemma run_hi_string: "encodeUTF8 (Some [104, 105]) = Inr [104, 105]"
  by (simp add: encodeUTF8_def unit_of_nat_def)

lemma run_decrypt_tampered:
  "decryptAsymmetric toy_core ''1tbW1tbW1tbW1tbW1tbW1gwO''
     ''MjM0NTY3ODk6Ozw9Pj9AQUJDREVGR0hJ'' ''AwYJDA8SFRgbHiEkJyotMDM2OTw/QkVIS05RVFdaXWA=''
     ''ZGVmZ2hpamtsbW5vcHFyc3R1dnd4eXp7fH1+f4CBgoM=''
   = Inl (TypeError ''Cannot read properties of null (reading 'length')'')"
  by (simp only: decryptAsymmetric_def run_tampered run_nonce run_alice_public run_bob_private
      run_open_tampered sum.case encodeUTF8_def option.case)

lemma run_decrypt_hi:
  "decryptAsymmetric toy_core ''1tbW1tbW1tbW1tbW1tbW1gwN''
     ''MjM0NTY3ODk6Ozw9Pj9AQUJDREVGR0hJ'' ''AwYJDA8SFRgbHiEkJyotMDM2OTw/QkVIS05RVFdaXWA=''
     ''ZGVmZ2hpamtsbW5vcHFyc3R1dnd4eXp7fH1+f4CBgoM=''
   = Inr [104, 105]"
  by (simp only: decryptAsymmetric_def run_hi_sealed run_nonce run_alice_public run_bob_private
      run_open_hi sum.case run_hi_string)

text \<open>
  C3, as the claim states it, at a ciphertext with one bit flipped (the last character of
  the base64 text of Alice's box for Bob, \<open>N\<close>, replaced by \<open>O\<close>): the box does not
  verify, and the error is not an \<^verbatim>\<open>AuthenticationError\<close> but the \<^verbatim>\<open>TypeError\<close> of reading
  the length of \<^verbatim>\<open>null\<close>.
\<close>

theorem decryptAsymmetric_authentication_counterexample:
  "nacl_box_open toy_core
     [214, 214, 214, 214, 214, 214, 214, 214, 214, 214, 214, 214, 214, 214, 214, 214, 12, 14]
     [50, 51, 52, 53, 54, 55, 56, 57, 58, 59, 60, 61, 62, 63, 64, 65, 66, 67, 68, 69, 70, 71,
      72, 73]
     [3, 6, 9, 12, 15, 18, 21, 24, 27, 30, 33, 36, 39, 42, 45, 48, 51, 54, 57, 60, 63, 66,
      69, 72, 75, 78, 81, 84, 87, 90, 93, 96]
     [100, 101, 102, 103, 104, 105, 106, 107, 108, 109, 110, 111, 112, 113, 114, 115,
      116, 117, 118, 119, 120, 121, 122, 123, 124, 125, 126, 127, 128, 129, 130, 131]
   = Inr None
   \<and> decryptAsymmetric toy_core ''1tbW1tbW1tbW1tbW1tbW1gwO''
       ''MjM0NTY3ODk6Ozw9Pj9AQUJDREVGR0hJ'' ''AwYJDA8SFRgbHiEkJyotMDM2OTw/QkVIS05RVFdaXWA=''
       ''ZGVmZ2hpamtsbW5vcHFyc3R1dnd4eXp7fH1+f4CBgoM=''
     = Inl (TypeError ''Cannot read properties of null (reading 'length')'')
   \<and> decryptAsymmetric toy_core ''1tbW1tbW1tbW1tbW1tbW1gwO''
       ''MjM0NTY3ODk6Ozw9Pj9AQUJDREVGR0hJ'' ''AwYJDA8SFRgbHiEkJyotMDM2OTw/QkVIS05RVFdaXWA=''
       ''ZGVmZ2hpamtsbW5vcHFyc3R1dnd4eXp7fH1+f4CBgoM=''
     \<noteq> Inl AuthenticationError"
  using run_open_tampered run_decrypt_tampered by simp

text \<open>
  C3, amended. When the four arguments decode and \<^verbatim>\<open>nacl.box.open\<close> returns \<^verbatim>\<open>null\<close> (the
  box is shorter than an authenticator or does not verify under these keys and this
  nonce), \<^const>\<open>decryptAsymmetric\<close> fails, with the \<^verbatim>\<open>TypeError\<close> that \<^verbatim>\<open>util.encodeUTF8\<close>
  raises on \<^verbatim>\<open>null\<close>. And whatever string it does return is the text of the bytes that an
  opened box held: it never returns anything else.
\<close>

theorem decryptAsymmetric_failed_authentication:
  "(decodeBase64 c = Inr box \<and> decodeBase64 n = Inr nb \<and> decodeBase64 pk = Inr pkb
      \<and> decodeBase64 sk = Inr skb \<and> nacl_box_open core box nb pkb skb = Inr None
    \<longrightarrow> decryptAsymmetric core c n pk sk
          = Inl (TypeError ''Cannot read properties of null (reading 'length')''))
   \<and> (decryptAsymmetric core c n pk sk = Inr p
    \<longrightarrow> (\<exists>box nb pkb skb m. decodeBase64 c = Inr box \<and> decodeBase64 n = Inr nb
            \<and> decodeBase64 pk = Inr pkb \<and> decodeBase64 sk = Inr skb
            \<and> nacl_box_open core box nb pkb skb = Inr (Some m) \<and> utf8_encode p = Some m))"
proof -
  have 1: "decryptAsymmetric core c n pk sk
          = Inl (TypeError ''Cannot read properties of null (reading 'length')'')"
    if "decodeBase64 c = Inr box" "decodeBase64 n = Inr nb" "decodeBase64 pk = Inr pkb"
      "decodeBase64 sk = Inr skb" "nacl_box_open core box nb pkb skb = Inr None"
    by (simp only: decryptAsymmetric_def that sum.case encodeUTF8_def option.case)
  have 2: "\<exists>box nb pkb skb m. decodeBase64 c = Inr box \<and> decodeBase64 n = Inr nb
            \<and> decodeBase64 pk = Inr pkb \<and> decodeBase64 sk = Inr skb
            \<and> nacl_box_open core box nb pkb skb = Inr (Some m) \<and> utf8_encode p = Some m"
    if r: "decryptAsymmetric core c n pk sk = Inr p"
  proof -
    from r obtain box where a: "decodeBase64 c = Inr box"
      by (cases "decodeBase64 c") (simp_all add: decryptAsymmetric_def)
    from r a obtain nb where b: "decodeBase64 n = Inr nb"
      by (cases "decodeBase64 n") (simp_all add: decryptAsymmetric_def)
    from r a b obtain pkb where c: "decodeBase64 pk = Inr pkb"
      by (cases "decodeBase64 pk") (simp_all add: decryptAsymmetric_def)
    from r a b c obtain skb where d: "decodeBase64 sk = Inr skb"
      by (cases "decodeBase64 sk") (simp_all add: decryptAsymmetric_def)
    from r a b c d obtain res where e: "nacl_box_open core box nb pkb skb = Inr res"
      and f: "encodeUTF8 res = Inr p"
      by (cases "nacl_box_open core box nb pkb skb") (simp_all add: decryptAsymmetric_def)
    from f obtain m where g: "res = Some m" and h: "utf8_decode m = Some p"
      by (auto simp: encodeUTF8_def split: option.splits)
    from h have "utf8_encode p = Some m" by (rule encode_decode_utf8)
    with a b c d e g show ?thesis by blast
  qed
  from 1 2 show ?thesis by blast
qed

theorem decryptAsymmetric_failed_authentication_witness:
  "decryptAsymmetric toy_core ''1tbW1tbW1tbW1tbW1tbW1gwO''
     ''MjM0NTY3ODk6Ozw9Pj9AQUJDREVGR0hJ'' ''AwYJDA8SFRgbHiEkJyotMDM2OTw/QkVIS05RVFdaXWA=''
     ''ZGVmZ2hpamtsbW5vcHFyc3R1dnd4eXp7fH1+f4CBgoM=''
   = Inl (TypeError ''Cannot read properties of null (reading 'length')'')
   \<and> decryptAsymmetric toy_core ''1tbW1tbW1tbW1tbW1tbW1gwN''
     ''MjM0NTY3ODk6Ozw9Pj9AQUJDREVGR0hJ'' ''AwYJDA8SFRgbHiEkJyotMDM2OTw/QkVIS05RVFdaXWA=''
     ''ZGVmZ2hpamtsbW5vcHFyc3R1dnd4eXp7fH1+f4CBgoM='' = Inr [104, 105]
   \<and> (\<exists>box nb pkb skb m. decodeBase64 ''1tbW1tbW1tbW1tbW1tbW1gwN'' = Inr box
         \<and> decodeBase64 ''MjM0NTY3ODk6Ozw9Pj9AQUJDREVGR0hJ'' = Inr nb
         \<and> decodeBase64 ''AwYJDA8SFRgbHiEkJyotMDM2OTw/QkVIS05RVFdaXWA='' = Inr pkb
         \<and> decodeBase64 ''ZGVmZ2hpamtsbW5vcHFyc3R1dnd4eXp7fH1+f4CBgoM='' = Inr skb
         \<and> nacl_box_open toy_core box nb pkb skb = Inr (Some m)
         \<and> utf8_encode [104, 105] = Some m)"
proof -
  note t1 = decryptAsymmetric_failed_authentication[of "''1tbW1tbW1tbW1tbW1tbW1gwO''" _
      "''MjM0NTY3ODk6Ozw9Pj9AQUJDREVGR0hJ''" _
      "''AwYJDA8SFRgbHiEkJyotMDM2OTw/QkVIS05RVFdaXWA=''" _
      "''ZGVmZ2hpamtsbW5vcHFyc3R1dnd4eXp7fH1+f4CBgoM=''" _ toy_core]
  note t2 = decryptAsymmetric_failed_authentication[of "''1tbW1tbW1tbW1tbW1tbW1gwN''" _
      "''MjM0NTY3ODk6Ozw9Pj9AQUJDREVGR0hJ''" _
      "''AwYJDA8SFRgbHiEkJyotMDM2OTw/QkVIS05RVFdaXWA=''" _
      "''ZGVmZ2hpamtsbW5vcHFyc3R1dnd4eXp7fH1+f4CBgoM=''" _ toy_core "[104, 105]"]
  from t1 run_tampered run_nonce run_alice_public run_bob_private run_open_tampered
  have a: "decryptAsymmetric toy_core ''1tbW1tbW1tbW1tbW1tbW1gwO''
     ''MjM0NTY3ODk6Ozw9Pj9AQUJDREVGR0hJ'' ''AwYJDA8SFRgbHiEkJyotMDM2OTw/QkVIS05RVFdaXWA=''
     ''ZGVmZ2hpamtsbW5vcHFyc3R1dnd4eXp7fH1+f4CBgoM=''
   = Inl (TypeError ''Cannot read properties of null (reading 'length')'')"
    by blast
  from t2 run_decrypt_hi
  have b: "\<exists>box nb pkb skb m. decodeBase64 ''1tbW1tbW1tbW1tbW1tbW1gwN'' = Inr box
         \<and> decodeBase64 ''MjM0NTY3ODk6Ozw9Pj9AQUJDREVGR0hJ'' = Inr nb
         \<and> decodeBase64 ''AwYJDA8SFRgbHiEkJyotMDM2OTw/QkVIS05RVFdaXWA='' = Inr pkb
         \<and> decodeBase64 ''ZGVmZ2hpamtsbW5vcHFyc3R1dnd4eXp7fH1+f4CBgoM='' = Inr skb
         \<and> nacl_box_open toy_core box nb pkb skb = Inr (Some m)
         \<and> utf8_encode [104, 105] = Some m"
    by blast
  from a b run_decrypt_hi show ?thesis by blast
qed

section \<open>Malformed keys and nonces\<close>

lemma run_not_base64: "decodeBase64 ''!'' = Inl (TypeError ''invalid encoding'')"
  by (simp add: decodeBase64_def)

lemma run_short_nonce: "decodeBase64 ''AAAA'' = Inr [0, 0, 0]"
  by code_simp

lemma run_encrypt_not_base64:
  "fst (encryptAsymmetric toy_core [104, 105] ''!''
          ''AQIDBAUGBwgJCgsMDQ4PEBESExQVFhcYGRobHB0eHyA='' (counter_rng 50))
   = Inl (TypeError ''invalid encoding'')"
  by (simp only: encryptAsymmetric_def split_beta Let_def fst_conv run_hi_bytes run_not_base64
      sum.case)

lemma run_open_short_nonce:
  "nacl_box_open toy_core
     [214, 214, 214, 214, 214, 214, 214, 214, 214, 214, 214, 214, 214, 214, 214, 214, 12, 13]
     [0, 0, 0]
     [3, 6, 9, 12, 15, 18, 21, 24, 27, 30, 33, 36, 39, 42, 45, 48, 51, 54, 57, 60, 63, 66,
      69, 72, 75, 78, 81, 84, 87, 90, 93, 96]
     [100, 101, 102, 103, 104, 105, 106, 107, 108, 109, 110, 111, 112, 113, 114, 115,
      116, 117, 118, 119, 120, 121, 122, 123, 124, 125, 126, 127, 128, 129, 130, 131]
   = Inl (Error ''bad nonce size'')"
  by code_simp

lemma run_decrypt_short_nonce:
  "decryptAsymmetric toy_core ''1tbW1tbW1tbW1tbW1tbW1gwN'' ''AAAA''
     ''AwYJDA8SFRgbHiEkJyotMDM2OTw/QkVIS05RVFdaXWA=''
     ''ZGVmZ2hpamtsbW5vcHFyc3R1dnd4eXp7fH1+f4CBgoM=''
   = Inl (Error ''bad nonce size'')"
  by (simp only: decryptAsymmetric_def run_hi_sealed run_short_nonce run_alice_public
      run_bob_private run_open_short_nonce sum.case)

text \<open>
  C4, as the claim states it, at a public key that is not base64 and at a nonce of three
  bytes: both calls fail, but with \<^verbatim>\<open>TypeError('invalid encoding')\<close> and
  \<^verbatim>\<open>Error('bad nonce size')\<close>, not with a \<^verbatim>\<open>KeyFormatError\<close> or an \<^verbatim>\<open>EncodingError\<close>.
\<close>

theorem asymmetric_bad_key_counterexample:
  "fst (encryptAsymmetric toy_core [104, 105] ''!''
          ''AQIDBAUGBwgJCgsMDQ4PEBESExQVFhcYGRobHB0eHyA='' (counter_rng 50))
     = Inl (TypeError ''invalid encoding'')
   \<and> fst (encryptAsymmetric toy_core [104, 105] ''!''
          ''AQIDBAUGBwgJCgsMDQ4PEBESExQVFhcYGRobHB0eHyA='' (counter_rng 50))
     \<notin> {Inl KeyFormatError, Inl EncodingError}
   \<and> decryptAsymmetric toy_core ''1tbW1tbW1tbW1tbW1tbW1gwN'' ''AAAA''
       ''AwYJDA8SFRgbHiEkJyotMDM2OTw/QkVIS05RVFdaXWA=''
       ''ZGVmZ2hpamtsbW5vcHFyc3R1dnd4eXp7fH1+f4CBgoM=''
     = Inl (Error ''bad nonce size'')
   \<and> decryptAsymmetric toy_core ''1tbW1tbW1tbW1tbW1tbW1gwN'' ''AAAA''
       ''AwYJDA8SFRgbHiEkJyotMDM2OTw/QkVIS05RVFdaXWA=''
       ''ZGVmZ2hpamtsbW5vcHFyc3R1dnd4eXp7fH1+f4CBgoM=''
     \<notin> {Inl KeyFormatError, Inl EncodingError}"
  using run_encrypt_not_base64 run_decrypt_short_nonce by simp

lemma bad_key_cases:
  "bad_key s \<longleftrightarrow> decodeBase64 s = Inl (TypeError ''invalid encoding'')
     \<or> (\<exists>b. decodeBase64 s = Inr b \<and> length b \<noteq> 32)"
  by (auto simp: bad_key_def decodeBase64_def)

lemma bad_nonce_cases:
  "bad_nonce s \<longleftrightarrow> decodeBase64 s = Inl (TypeError ''invalid encoding'')
     \<or> (\<exists>b. decodeBase64 s = Inr b \<and> length b \<noteq> 24)"
  by (auto simp: bad_nonce_def decodeBase64_def)

lemma decodeBase64_cases:
  obtains "decodeBase64 s = Inl (TypeError ''invalid encoding'')"
  | b where "decodeBase64 s = Inr b"
  by (cases "validateBase64 s") (simp_all add: decodeBase64_def)

lemma decodeUTF8_cases:
  obtains "decodeUTF8 s = Inl (URIError ''URI malformed'')"
  | m where "decodeUTF8 s = Inr m"
  by (cases "utf8_encode s") (simp_all add: decodeUTF8_def)

lemma nacl_box_bad_keys:
  "length pkb \<noteq> 32 \<or> length skb \<noteq> 32 \<Longrightarrow>
   nacl_box core m n pkb skb \<in> {Inl (Error ''bad public key size''),
                                  Inl (Error ''bad secret key size'')}"
  by (auto simp: nacl_box_def nacl_box_before_def checkBoxLengths_def)

lemma nacl_box_open_bad_lengths:
  "length pkb \<noteq> 32 \<or> length skb \<noteq> 32 \<or> length nb \<noteq> 24 \<Longrightarrow>
   nacl_box_open core box nb pkb skb \<in> {Inl (Error ''bad public key size''),
      Inl (Error ''bad secret key size''), Inl (Error ''bad key size''),
      Inl (Error ''bad nonce size'')}"
  by (auto simp: nacl_box_open_def nacl_box_before_def checkBoxLengths_def
      nacl_secretbox_open_def checkLengths_def)

text \<open>
  C4, amended. A call of \<^const>\<open>encryptAsymmetric\<close> with a key that is not valid base64 or
  does not decode to 32 bytes, and a call of \<^const>\<open>decryptAsymmetric\<close> with such a key or
  with a nonce that is not valid base64 or does not decode to 24 bytes, returns no result:
  it fails with one of the untyped errors of the libraries, \<^verbatim>\<open>TypeError('invalid encoding')\<close>
  from the base64 decoder or an \<^verbatim>\<open>Error\<close> with a size message from tweetnacl (or, when the
  plaintext has no UTF-8 form, with the \<^verbatim>\<open>URIError\<close> that comes first).
\<close>

theorem asymmetric_bad_key_errors:
  "(bad_key pk \<or> bad_key sk \<longrightarrow>
      (\<exists>e. fst (encryptAsymmetric core P pk sk r) = Inl e
         \<and> e \<in> {URIError ''URI malformed'', TypeError ''invalid encoding'',
                 Error ''bad public key size'', Error ''bad secret key size''}))
   \<and> (bad_key pk \<or> bad_key sk \<or> bad_nonce n \<longrightarrow>
      (\<exists>e. decryptAsymmetric core c n pk sk = Inl e
         \<and> e \<in> {TypeError ''invalid encoding'', Error ''bad public key size'',
                 Error ''bad secret key size'', Error ''bad key size'',
                 Error ''bad nonce size''}))"
proof -
  have 1: "\<exists>e. fst (encryptAsymmetric core P pk sk r) = Inl e
         \<and> e \<in> {URIError ''URI malformed'', TypeError ''invalid encoding'',
                 Error ''bad public key size'', Error ''bad secret key size''}"
    if bad: "bad_key pk \<or> bad_key sk"
  proof (cases P rule: decodeUTF8_cases)
    case 1
    then show ?thesis by (simp add: encryptAsymmetric_def split_beta)
  next
    case (2 m)
    show ?thesis
    proof (cases pk rule: decodeBase64_cases)
      case 1
      with 2 show ?thesis by (simp add: encryptAsymmetric_def split_beta)
    next
      case pk: (2 pkb)
      show ?thesis
      proof (cases sk rule: decodeBase64_cases)
        case 1
        with 2 pk show ?thesis by (simp add: encryptAsymmetric_def split_beta)
      next
        case sk: (2 skb)
        from bad pk sk have "length pkb \<noteq> 32 \<or> length skb \<noteq> 32"
          by (auto simp: bad_key_cases)
        from nacl_box_bad_keys[OF this, of core m "fst (randomBytes 24 r)"] 2 pk sk
        show ?thesis by (auto simp: encryptAsymmetric_def split_beta)
      qed
    qed
  qed
  have 2: "\<exists>e. decryptAsymmetric core c n pk sk = Inl e
         \<and> e \<in> {TypeError ''invalid encoding'', Error ''bad public key size'',
                 Error ''bad secret key size'', Error ''bad key size'',
                 Error ''bad nonce size''}"
    if bad: "bad_key pk \<or> bad_key sk \<or> bad_nonce n"
  proof (cases c rule: decodeBase64_cases)
    case 1
    then show ?thesis by (simp add: decryptAsymmetric_def)
  next
    case c: (2 box)
    show ?thesis
    proof (cases n rule: decodeBase64_cases)
      case 1
      with c show ?thesis by (simp add: decryptAsymmetric_def)
    next
      case n: (2 nb)
      show ?thesis
      proof (cases pk rule: decodeBase64_cases)
        case 1
        with c n show ?thesis by (simp add: decryptAsymmetric_def)
      next
        case pk: (2 pkb)
        show ?thesis
        proof (cases sk rule: decodeBase64_cases)
          case 1
          with c n pk show ?thesis by (simp add: decryptAsymmetric_def)
        next
          case sk: (2 skb)
          from bad n pk sk have "length pkb \<noteq> 32 \<or> length skb \<noteq> 32 \<or> length nb \<noteq> 24"
            by (auto simp: bad_key_cases bad_nonce_cases)
          from nacl_box_open_bad_lengths[OF this, of core box] c n pk sk
          show ?thesis by (auto simp: decryptAsymmetric_def)
        qed
      qed
    qed
  qed
  from 1 2 show ?thesis by blast
qed

theorem asymmetric_bad_key_errors_witness:
  "bad_key ''!'' \<and> bad_nonce ''AAAA''
   \<and> (\<exists>e. fst (encryptAsymmetric toy_core [104, 105] ''!''
          ''AQIDBAUGBwgJCgsMDQ4PEBESExQVFhcYGRobHB0eHyA='' (counter_rng 50)) = Inl e
         \<and> e \<in> {URIError ''URI malformed'', TypeError ''invalid encoding'',
                 Error ''bad public key size'', Error ''bad secret key size''})
   \<and> (\<exists>e. decryptAsymmetric toy_core ''1tbW1tbW1tbW1tbW1tbW1gwN'' ''AAAA''
            ''AwYJDA8SFRgbHiEkJyotMDM2OTw/QkVIS05RVFdaXWA=''
            ''ZGVmZ2hpamtsbW5vcHFyc3R1dnd4eXp7fH1+f4CBgoM='' = Inl e
         \<and> e \<in> {TypeError ''invalid encoding'', Error ''bad public key size'',
                 Error ''bad secret key size'', Error ''bad key size'',
                 Error ''bad nonce size''})"
proof -
  have k: "bad_key ''!''" by (simp add: bad_key_def run_not_base64)
  have n: "bad_nonce ''AAAA''" by (simp add: bad_nonce_def run_short_nonce)
  from asymmetric_bad_key_errors[where pk = "''!''"
      and sk = "''AQIDBAUGBwgJCgsMDQ4PEBESExQVFhcYGRobHB0eHyA=''"
      and core = toy_core and P = "[104, 105]" and r = "counter_rng 50"] k
  have a: "\<exists>e. fst (encryptAsymmetric toy_core [104, 105] ''!''
          ''AQIDBAUGBwgJCgsMDQ4PEBESExQVFhcYGRobHB0eHyA='' (counter_rng 50)) = Inl e
         \<and> e \<in> {URIError ''URI malformed'', TypeError ''invalid encoding'',
                 Error ''bad public key size'', Error ''bad secret key size''}"
    by blast
  from asymmetric_bad_key_errors[where pk = "''AwYJDA8SFRgbHiEkJyotMDM2OTw/QkVIS05RVFdaXWA=''"
      and sk = "''ZGVmZ2hpamtsbW5vcHFyc3R1dnd4eXp7fH1+f4CBgoM=''" and n = "''AAAA''"
      and core = toy_core and c = "''1tbW1tbW1tbW1tbW1tbW1gwN''"] n
  have b: "\<exists>e. decryptAsymmetric toy_core ''1tbW1tbW1tbW1tbW1tbW1gwN'' ''AAAA''
            ''AwYJDA8SFRgbHiEkJyotMDM2OTw/QkVIS05RVFdaXWA=''
            ''ZGVmZ2hpamtsbW5vcHFyc3R1dnd4eXp7fH1+f4CBgoM='' = Inl e
         \<and> e \<in> {TypeError ''invalid encoding'', Error ''bad public key size'',
                 Error ''bad secret key size'', Error ''bad key size'',
                 Error ''bad nonce size''}"
    by blast
  from k n a b show ?thesis by blast
qed

section \<open>Opened bytes that are not text\<close>

lemma valid_utf8_decode: "valid_utf8 m \<longleftrightarrow> utf8_decode m \<noteq> None"
proof
  assume "valid_utf8 m"
  then obtain s where "utf8_encode s = Some m" unfolding valid_utf8_def by blast
  then have "utf8_decode m = Some s" by (rule decode_encode_utf8)
  then show "utf8_decode m \<noteq> None" by simp
next
  assume "utf8_decode m \<noteq> None"
  then obtain s where "utf8_decode m = Some s" by blast
  then have "utf8_encode s = Some m" by (rule encode_decode_utf8)
  then show "valid_utf8 m" unfolding valid_utf8_def by blast
qed

lemma run_ff_sealed:
  "decodeBase64 ''WFhYWFhYWFhYWFhYWFhYWJs='' =
     Inr [88, 88, 88, 88, 88, 88, 88, 88, 88, 88, 88, 88, 88, 88, 88, 88, 155]"
  by code_simp

lemma run_open_ff:
  "nacl_box_open toy_core
     [88, 88, 88, 88, 88, 88, 88, 88, 88, 88, 88, 88, 88, 88, 88, 88, 155]
     [50, 51, 52, 53, 54, 55, 56, 57, 58, 59, 60, 61, 62, 63, 64, 65, 66, 67, 68, 69, 70, 71,
      72, 73]
     [3, 6, 9, 12, 15, 18, 21, 24, 27, 30, 33, 36, 39, 42, 45, 48, 51, 54, 57, 60, 63, 66,
      69, 72, 75, 78, 81, 84, 87, 90, 93, 96]
     [100, 101, 102, 103, 104, 105, 106, 107, 108, 109, 110, 111, 112, 113, 114, 115,
      116, 117, 118, 119, 120, 121, 122, 123, 124, 125, 126, 127, 128, 129, 130, 131]
   = Inr (Some [255])"
  by code_simp

lemma run_ff_string: "encodeUTF8 (Some [255]) = Inl (URIError ''URI malformed'')"
  by (simp add: encodeUTF8_def)

lemma run_ff_invalid: "\<not> valid_utf8 [255]"
  by (simp add: valid_utf8_decode)

lemma run_decrypt_ff:
  "decryptAsymmetric toy_core ''WFhYWFhYWFhYWFhYWFhYWJs=''
     ''MjM0NTY3ODk6Ozw9Pj9AQUJDREVGR0hJ'' ''AwYJDA8SFRgbHiEkJyotMDM2OTw/QkVIS05RVFdaXWA=''
     ''ZGVmZ2hpamtsbW5vcHFyc3R1dnd4eXp7fH1+f4CBgoM=''
   = Inl (URIError ''URI malformed'')"
  by (simp only: decryptAsymmetric_def run_ff_sealed run_nonce run_alice_public run_bob_private
      run_open_ff sum.case run_ff_string)

text \<open>
  C8, as the claim states it, at a box that Alice sealed for Bob around the single byte
  255: the box opens, the byte is not UTF-8, and the error is not an \<^verbatim>\<open>EncodingError\<close> but
  the \<^verbatim>\<open>URIError\<close> of \<^verbatim>\<open>decodeURIComponent\<close>.
\<close>

theorem decryptAsymmetric_invalid_utf8_counterexample:
  "nacl_box_open toy_core
     [88, 88, 88, 88, 88, 88, 88, 88, 88, 88, 88, 88, 88, 88, 88, 88, 155]
     [50, 51, 52, 53, 54, 55, 56, 57, 58, 59, 60, 61, 62, 63, 64, 65, 66, 67, 68, 69, 70, 71,
      72, 73]
     [3, 6, 9, 12, 15, 18, 21, 24, 27, 30, 33, 36, 39, 42, 45, 48, 51, 54, 57, 60, 63, 66,
      69, 72, 75, 78, 81, 84, 87, 90, 93, 96]
     [100, 101, 102, 103, 104, 105, 106, 107, 108, 109, 110, 111, 112, 113, 114, 115,
      116, 117, 118, 119, 120, 121, 122, 123, 124, 125, 126, 127, 128, 129, 130, 131]
   = Inr (Some [255])
   \<and> \<not> valid_utf8 [255]
   \<and> decryptAsymmetric toy_core ''WFhYWFhYWFhYWFhYWFhYWJs=''
       ''MjM0NTY3ODk6Ozw9Pj9AQUJDREVGR0hJ'' ''AwYJDA8SFRgbHiEkJyotMDM2OTw/QkVIS05RVFdaXWA=''
       ''ZGVmZ2hpamtsbW5vcHFyc3R1dnd4eXp7fH1+f4CBgoM=''
     = Inl (URIError ''URI malformed'')
   \<and> decryptAsymmetric toy_core ''WFhYWFhYWFhYWFhYWFhYWJs=''
       ''MjM0NTY3ODk6Ozw9Pj9AQUJDREVGR0hJ'' ''AwYJDA8SFRgbHiEkJyotMDM2OTw/QkVIS05RVFdaXWA=''
       ''ZGVmZ2hpamtsbW5vcHFyc3R1dnd4eXp7fH1+f4CBgoM=''
     \<noteq> Inl EncodingError"
  using run_open_ff run_ff_invalid run_decrypt_ff by simp

text \<open>
  C8, amended. When the four arguments decode and the box opens to bytes that are not valid
  UTF-8, \<^const>\<open>decryptAsymmetric\<close> fails with the \<^verbatim>\<open>URIError\<close> that \<^verbatim>\<open>decodeURIComponent\<close>
  raises inside \<^verbatim>\<open>util.encodeUTF8\<close>; it returns no string. When the bytes are valid UTF-8
  it returns the string that has them as its UTF-8 form.
\<close>

theorem decryptAsymmetric_invalid_utf8:
  assumes "decodeBase64 c = Inr box" and "decodeBase64 n = Inr nb"
    and "decodeBase64 pk = Inr pkb" and "decodeBase64 sk = Inr skb"
    and "nacl_box_open core box nb pkb skb = Inr (Some m)"
  shows "(\<not> valid_utf8 m \<longrightarrow>
            decryptAsymmetric core c n pk sk = Inl (URIError ''URI malformed''))
         \<and> (valid_utf8 m \<longrightarrow>
            (\<exists>s. decryptAsymmetric core c n pk sk = Inr s \<and> utf8_encode s = Some m))"
proof -
  have d: "decryptAsymmetric core c n pk sk = encodeUTF8 (Some m)"
    by (simp only: decryptAsymmetric_def assms sum.case)
  have 1: "decryptAsymmetric core c n pk sk = Inl (URIError ''URI malformed'')"
    if "\<not> valid_utf8 m"
    using that by (simp add: d encodeUTF8_def valid_utf8_decode)
  have 2: "\<exists>s. decryptAsymmetric core c n pk sk = Inr s \<and> utf8_encode s = Some m"
    if "valid_utf8 m"
  proof -
    from that obtain s where s: "utf8_decode m = Some s"
      by (auto simp: valid_utf8_decode)
    then have "utf8_encode s = Some m" by (rule encode_decode_utf8)
    with s show ?thesis by (simp add: d encodeUTF8_def)
  qed
  from 1 2 show ?thesis by blast
qed

theorem decryptAsymmetric_invalid_utf8_witness:
  "\<not> valid_utf8 [255]
   \<and> decryptAsymmetric toy_core ''WFhYWFhYWFhYWFhYWFhYWJs=''
       ''MjM0NTY3ODk6Ozw9Pj9AQUJDREVGR0hJ'' ''AwYJDA8SFRgbHiEkJyotMDM2OTw/QkVIS05RVFdaXWA=''
       ''ZGVmZ2hpamtsbW5vcHFyc3R1dnd4eXp7fH1+f4CBgoM=''
     = Inl (URIError ''URI malformed'')
   \<and> valid_utf8 [104, 105]
   \<and> (\<exists>s. decryptAsymmetric toy_core ''1tbW1tbW1tbW1tbW1tbW1gwN''
       ''MjM0NTY3ODk6Ozw9Pj9AQUJDREVGR0hJ'' ''AwYJDA8SFRgbHiEkJyotMDM2OTw/QkVIS05RVFdaXWA=''
       ''ZGVmZ2hpamtsbW5vcHFyc3R1dnd4eXp7fH1+f4CBgoM='' = Inr s
       \<and> utf8_encode s = Some [104, 105])"
proof -
  have v: "valid_utf8 [104, 105]"
    by (simp add: valid_utf8_decode unit_of_nat_def)
  from decryptAsymmetric_invalid_utf8[OF run_ff_sealed run_nonce run_alice_public
      run_bob_private run_open_ff] run_ff_invalid
  have a: "decryptAsymmetric toy_core ''WFhYWFhYWFhYWFhYWFhYWJs=''
       ''MjM0NTY3ODk6Ozw9Pj9AQUJDREVGR0hJ'' ''AwYJDA8SFRgbHiEkJyotMDM2OTw/QkVIS05RVFdaXWA=''
       ''ZGVmZ2hpamtsbW5vcHFyc3R1dnd4eXp7fH1+f4CBgoM=''
     = Inl (URIError ''URI malformed'')"
    by blast
  from decryptAsymmetric_invalid_utf8[OF run_hi_sealed run_nonce run_alice_public
      run_bob_private run_open_hi] v
  have b: "\<exists>s. decryptAsymmetric toy_core ''1tbW1tbW1tbW1tbW1tbW1gwN''
       ''MjM0NTY3ODk6Ozw9Pj9AQUJDREVGR0hJ'' ''AwYJDA8SFRgbHiEkJyotMDM2OTw/QkVIS05RVFdaXWA=''
       ''ZGVmZ2hpamtsbW5vcHFyc3R1dnd4eXp7fH1+f4CBgoM='' = Inr s
       \<and> utf8_encode s = Some [104, 105]"
    by blast
  from run_ff_invalid a v b show ?thesis by blast
qed

section \<open>Fresh nonces and IVs\<close>






















































section \<open>No state but the random source\<close>






end
